theory Spec2Isabelle
  imports Main
begin

section \<open>The sliding-window rate limiter of src/hooks/useRateLimit.ts\<close>

text \<open>
  The hook \<^verbatim>\<open>useRateLimit\<close> keeps, per storage key, a JSON text
  \<^verbatim>\<open>{"requests":[...],"resetTime":...}\<close> in the browser's \<^verbatim>\<open>localStorage\<close> and
  derives a \<^verbatim>\<open>RateLimitState\<close> from it. The development embeds its four callbacks
  (\<^verbatim>\<open>loadFromStorage\<close>, \<^verbatim>\<open>saveToStorage\<close>, \<^verbatim>\<open>updateState\<close>, \<^verbatim>\<open>recordRequest\<close>)
  together with the parts of the JavaScript runtime they call: \<^verbatim>\<open>Date.now\<close>,
  \<^verbatim>\<open>localStorage.getItem/setItem\<close>, \<^verbatim>\<open>JSON.stringify\<close> and \<^verbatim>\<open>JSON.parse\<close>.

  Numbers. \<^verbatim>\<open>Date.now()\<close> returns whole milliseconds and the predefined windows are
  whole milliseconds, so every number the hook handles is an integer; they are modelled as
  \<^typ>\<open>int\<close>. A JavaScript number is an IEEE double, which represents integers exactly
  up to \<open>2^53\<close> in magnitude and prints them in plain decimal; the model agrees with
  the runtime on that range and says nothing about rounding beyond it.
\<close>

subsection \<open>JSON values and \<^verbatim>\<open>JSON.stringify\<close>\<close>

datatype json =
    JNull
  | JBool bool
  | JNum int
  | JStr string
  | JArr "json list"
  | JObj "(string \<times> json) list"

definition digit_char :: "nat \<Rightarrow> char" where
  "digit_char d = ''0123456789'' ! d"

definition is_digit :: "char \<Rightarrow> bool" where
  "is_digit c = (c \<in> set ''0123456789'')"

definition digit_val :: "char \<Rightarrow> nat" where
  "digit_val c = of_char c - 48"

function show_nat :: "nat \<Rightarrow> string" where
  "show_nat n = (if n < 10 then [digit_char n] else show_nat (n div 10) @ [digit_char (n mod 10)])"
  by pat_completeness auto
termination
  by (relation "measure (\<lambda>n. n)") auto

declare show_nat.simps [simp del]

definition show_int :: "int \<Rightarrow> string" where
  "show_int i = (if i < 0 then CHR ''-'' # show_nat (nat (- i)) else show_nat (nat i))"

definition hex_char :: "nat \<Rightarrow> char" where
  "hex_char d = ''0123456789abcdef'' ! d"

definition escape_char :: "char \<Rightarrow> string" where
  \<open>escape_char c =
     (if c = CHR 0x22 then [CHR 0x5C, CHR 0x22]
      else if c = CHR 0x5C then [CHR 0x5C, CHR 0x5C]
      else if c = CHR 0x08 then [CHR 0x5C, CHR ''b'']
      else if c = CHR 0x0C then [CHR 0x5C, CHR ''f'']
      else if c = CHR 0x0A then [CHR 0x5C, CHR ''n'']
      else if c = CHR 0x0D then [CHR 0x5C, CHR ''r'']
      else if c = CHR 0x09 then [CHR 0x5C, CHR ''t'']
      else if (of_char c :: nat) < 32
        then [CHR 0x5C, CHR ''u'', CHR ''0'', CHR ''0'',
              hex_char (of_char c div 16), hex_char (of_char c mod 16)]
      else [c])\<close>

definition quote :: "string \<Rightarrow> string" where
  "quote s = CHR 0x22 # concat (map escape_char s) @ [CHR 0x22]"

fun join_comma :: "string list \<Rightarrow> string" where
  "join_comma [] = []"
| "join_comma [x] = x"
| "join_comma (x # y # ys) = x @ CHR '','' # join_comma (y # ys)"

fun JSON_stringify :: "json \<Rightarrow> string" where
  "JSON_stringify JNull = ''null''"
| "JSON_stringify (JBool b) = (if b then ''true'' else ''false'')"
| "JSON_stringify (JNum n) = show_int n"
| "JSON_stringify (JStr s) = quote s"
| "JSON_stringify (JArr vs) = CHR ''['' # join_comma (map JSON_stringify vs) @ '']''"
| "JSON_stringify (JObj ms) =
     CHR ''{'' # join_comma (map (\<lambda>m. quote (fst m) @ CHR '':'' # JSON_stringify (snd m)) ms) @ ''}''"

subsection \<open>\<^verbatim>\<open>JSON.parse\<close>\<close>

text \<open>
  \<^verbatim>\<open>JSON.parse\<close> either returns a value or throws \<^verbatim>\<open>SyntaxError\<close>. The model scans the
  text into tokens and runs a pushdown recogniser of the JSON grammar over them. Two
  constructs of JSON are not modelled: number literals with a fraction or an exponent
  (their values are not integers in general) and escape sequences inside strings. A text
  that uses one yields \<open>Unsupported\<close>: the model makes no statement about it.
  \<open>SyntaxError\<close> is returned only for texts the grammar rejects.
\<close>

datatype 'a parsed = SyntaxError | Unsupported | Ok 'a

datatype token =
    TLBrace | TRBrace | TLBrack | TRBrack | TColon | TComma
  | TNull | TTrue | TFalse
  | TNum int
  | TStr string

definition cons_tok :: "token \<Rightarrow> token list parsed \<Rightarrow> token list parsed" where
  "cons_tok t r = (case r of Ok ts \<Rightarrow> Ok (t # ts) | SyntaxError \<Rightarrow> SyntaxError | Unsupported \<Rightarrow> Unsupported)"

definition num_tok :: "bool \<Rightarrow> nat \<Rightarrow> token" where
  "num_tok neg n = TNum (if neg then - int n else int n)"

fun lex :: "string \<Rightarrow> token list parsed"
  and lex_neg :: "string \<Rightarrow> token list parsed"
  and lex_zero :: "string \<Rightarrow> token list parsed"
  and lex_num :: "bool \<Rightarrow> nat \<Rightarrow> string \<Rightarrow> token list parsed"
  and lex_str :: "string \<Rightarrow> string \<Rightarrow> token list parsed"
where
  "lex [] = Ok []"
| \<open>lex (c # cs) =
     (if c = CHR '' '' \<or> c = CHR 0x09 \<or> c = CHR 0x0A \<or> c = CHR 0x0D then lex cs
      else if c = CHR ''{'' then cons_tok TLBrace (lex cs)
      else if c = CHR ''}'' then cons_tok TRBrace (lex cs)
      else if c = CHR ''['' then cons_tok TLBrack (lex cs)
      else if c = CHR '']'' then cons_tok TRBrack (lex cs)
      else if c = CHR '':'' then cons_tok TColon (lex cs)
      else if c = CHR '','' then cons_tok TComma (lex cs)
      else if c = CHR ''n'' then
        (if take 3 cs = ''ull'' then cons_tok TNull (lex (drop 3 cs)) else SyntaxError)
      else if c = CHR ''t'' then
        (if take 3 cs = ''rue'' then cons_tok TTrue (lex (drop 3 cs)) else SyntaxError)
      else if c = CHR ''f'' then
        (if take 4 cs = ''alse'' then cons_tok TFalse (lex (drop 4 cs)) else SyntaxError)
      else if c = CHR 0x22 then lex_str [] cs
      else if c = CHR ''-'' then lex_neg cs
      else if c = CHR ''0'' then lex_zero cs
      else if is_digit c then lex_num False (digit_val c) cs
      else SyntaxError)\<close>
| "lex_neg [] = SyntaxError"
| "lex_neg (c # cs) =
     (if c = CHR ''0'' then lex_zero cs
      else if is_digit c then lex_num True (digit_val c) cs
      else SyntaxError)"
| "lex_zero [] = Ok [TNum 0]"
| "lex_zero (c # cs) =
     (if is_digit c then SyntaxError
      else if c = CHR ''.'' \<or> c = CHR ''e'' \<or> c = CHR ''E'' then Unsupported
      else cons_tok (TNum 0) (lex (c # cs)))"
| "lex_num neg n [] = Ok [num_tok neg n]"
| "lex_num neg n (c # cs) =
     (if is_digit c then lex_num neg (10 * n + digit_val c) cs
      else if c = CHR ''.'' \<or> c = CHR ''e'' \<or> c = CHR ''E'' then Unsupported
      else cons_tok (num_tok neg n) (lex (c # cs)))"
| "lex_str acc [] = SyntaxError"
| \<open>lex_str acc (c # cs) =
     (if c = CHR 0x22 then cons_tok (TStr acc) (lex cs)
      else if c = CHR 0x5C then Unsupported
      else if (of_char c :: nat) < 32 then SyntaxError
      else lex_str (acc @ [c]) cs)\<close>

text \<open>
  The recogniser. A frame is an array or an object under construction; in an object
  frame the second component is the key whose value is being read, once it has been read.
\<close>

datatype frame =
    InArr "json list"
  | InObj "(string \<times> json) list" "string option"

datatype pmode = Val | ValOrClose | Key | KeyOrClose | Colon | Done json

definition start_value :: "frame list \<Rightarrow> token \<Rightarrow> (pmode \<times> frame list) option" where
  "start_value st t =
     (case t of
        TNull \<Rightarrow> Some (Done JNull, st)
      | TTrue \<Rightarrow> Some (Done (JBool True), st)
      | TFalse \<Rightarrow> Some (Done (JBool False), st)
      | TNum n \<Rightarrow> Some (Done (JNum n), st)
      | TStr s \<Rightarrow> Some (Done (JStr s), st)
      | TLBrack \<Rightarrow> Some (ValOrClose, InArr [] # st)
      | TLBrace \<Rightarrow> Some (KeyOrClose, InObj [] None # st)
      | _ \<Rightarrow> None)"

definition read_key :: "frame list \<Rightarrow> token \<Rightarrow> (pmode \<times> frame list) option" where
  "read_key st t =
     (case t of
        TStr k \<Rightarrow> (case st of InObj acc None # r \<Rightarrow> Some (Colon, InObj acc (Some k) # r) | _ \<Rightarrow> None)
      | _ \<Rightarrow> None)"

definition after_value :: "json \<Rightarrow> frame list \<Rightarrow> token \<Rightarrow> (pmode \<times> frame list) option" where
  "after_value v st t =
     (case st of
        [] \<Rightarrow> None
      | InArr acc # r \<Rightarrow>
          (if t = TComma then Some (Val, InArr (acc @ [v]) # r)
           else if t = TRBrack then Some (Done (JArr (acc @ [v])), r)
           else None)
      | InObj acc None # r \<Rightarrow> None
      | InObj acc (Some k) # r \<Rightarrow>
          (if t = TComma then Some (Key, InObj (acc @ [(k, v)]) None # r)
           else if t = TRBrace then Some (Done (JObj (acc @ [(k, v)])), r)
           else None))"

fun pstep :: "pmode \<Rightarrow> frame list \<Rightarrow> token \<Rightarrow> (pmode \<times> frame list) option" where
  "pstep Val st t = start_value st t"
| "pstep ValOrClose st t =
     (if t = TRBrack then (case st of InArr acc # r \<Rightarrow> Some (Done (JArr acc), r) | _ \<Rightarrow> None)
      else start_value st t)"
| "pstep Key st t = read_key st t"
| "pstep KeyOrClose st t =
     (if t = TRBrace then (case st of InObj acc None # r \<Rightarrow> Some (Done (JObj acc), r) | _ \<Rightarrow> None)
      else read_key st t)"
| "pstep Colon st t = (if t = TColon then Some (Val, st) else None)"
| "pstep (Done v) st t = after_value v st t"

fun prun :: "pmode \<Rightarrow> frame list \<Rightarrow> token list \<Rightarrow> json option" where
  "prun m st [] = (case m of Done v \<Rightarrow> (if st = [] then Some v else None) | _ \<Rightarrow> None)"
| "prun m st (t # ts) = (case pstep m st t of None \<Rightarrow> None | Some (m', st') \<Rightarrow> prun m' st' ts)"

definition JSON_parse :: "string \<Rightarrow> json parsed" where
  "JSON_parse s =
     (case lex s of
        SyntaxError \<Rightarrow> SyntaxError
      | Unsupported \<Rightarrow> Unsupported
      | Ok ts \<Rightarrow> (case prun Val [] ts of None \<Rightarrow> SyntaxError | Some v \<Rightarrow> Ok v))"

subsection \<open>The hook's data\<close>

record RateLimitConfig =
  key :: string
  maxRequests :: int
  windowMs :: int
  storageKey :: "string option"

record RateLimitState =
  canProceed :: bool
  remainingRequests :: int
  resetTime :: int
  timeUntilReset :: int

text \<open>
  The object \<^verbatim>\<open>{ requests, resetTime }\<close> that \<^verbatim>\<open>loadFromStorage\<close> returns and
  \<^verbatim>\<open>saveToStorage\<close> writes. Its second field is named \<open>data_resetTime\<close> here, since
  \<open>resetTime\<close> is a field of the state record.
\<close>

record LimitData =
  requests :: "int list"
  data_resetTime :: int

text \<open>
  The environment of one hook instance: the contents of \<^verbatim>\<open>localStorage\<close>, whether its
  \<^verbatim>\<open>getItem\<close> and \<^verbatim>\<open>setItem\<close> throw (storage disabled, quota exceeded), the clock as
  the sequence of values that successive calls of \<^verbatim>\<open>Date.now()\<close> return together with
  the number of calls made so far, and the React state last set by \<^verbatim>\<open>setState\<close>.
  The \<^verbatim>\<open>console.error\<close> calls of the two \<^verbatim>\<open>catch\<close> blocks have no effect on any of
  these and are left out.
\<close>

record World =
  items :: "string \<Rightarrow> string option"
  getItemThrows :: bool
  setItemThrows :: bool
  clock :: "nat \<Rightarrow> int"
  reads :: nat
  state :: RateLimitState

datatype 'a completion = Throws | Returns 'a

definition Date_now :: "World \<Rightarrow> int \<times> World" where
  "Date_now w = (clock w (reads w), w\<lparr>reads := Suc (reads w)\<rparr>)"

definition localStorage_getItem :: "World \<Rightarrow> string \<Rightarrow> string option completion" where
  "localStorage_getItem w k = (if getItemThrows w then Throws else Returns (items w k))"

definition localStorage_setItem :: "World \<Rightarrow> string \<Rightarrow> string \<Rightarrow> World completion" where
  "localStorage_setItem w k v =
     (if setItemThrows w then Throws else Returns (w\<lparr>items := (items w)(k \<mapsto> v)\<rparr>))"

text \<open>\<^verbatim>\<open>config.storageKey || `rateLimit_${config.key}`\<close>: an absent or empty key is falsy.\<close>

definition storageKey_of :: "RateLimitConfig \<Rightarrow> string" where
  "storageKey_of config =
     (case storageKey config of
        Some s \<Rightarrow> if s \<noteq> [] then s else ''rateLimit_'' @ key config
      | None \<Rightarrow> ''rateLimit_'' @ key config)"

subsection \<open>From a parsed value to the typed record\<close>

text \<open>
  \<^verbatim>\<open>JSON.parse\<close> returns \<^verbatim>\<open>any\<close>; the hook reads \<^verbatim>\<open>data.resetTime\<close> and
  \<^verbatim>\<open>data.requests\<close> from it at the types \<^verbatim>\<open>number\<close> and \<^verbatim>\<open>number[]\<close>. A property
  read returns the last member with that key. Where the parsed value has another shape,
  JavaScript goes through coercions (a comparison with \<^verbatim>\<open>undefined\<close>, a string read as a
  number) and \<^verbatim>\<open>TypeError\<close>s caught by the \<^verbatim>\<open>try\<close> that are not modelled:
  \<open>typed_data\<close> returns \<open>None\<close> and so do the operations below. So \<open>None\<close> never
  stands for an exception of the hook; it marks a stored text outside the model.
\<close>

definition property :: "json \<Rightarrow> string \<Rightarrow> json option" where
  "property v k = (case v of JObj ms \<Rightarrow> map_of (rev ms) k | _ \<Rightarrow> None)"

fun numbers :: "json list \<Rightarrow> int list option" where
  "numbers [] = Some []"
| "numbers (JNum n # vs) = (case numbers vs of None \<Rightarrow> None | Some ns \<Rightarrow> Some (n # ns))"
| "numbers (_ # vs) = None"

definition typed_data :: "json \<Rightarrow> LimitData option" where
  "typed_data v =
     (case property v ''resetTime'' of
        Some (JNum r) \<Rightarrow>
          (case property v ''requests'' of
             Some (JArr vs) \<Rightarrow>
               (case numbers vs of
                  Some ns \<Rightarrow> Some \<lparr>requests = ns, data_resetTime = r\<rparr>
                | None \<Rightarrow> None)
           | _ \<Rightarrow> None)
      | _ \<Rightarrow> None)"

definition data_json :: "int list \<Rightarrow> int \<Rightarrow> json" where
  "data_json rs r = JObj [(''requests'', JArr (map JNum rs)), (''resetTime'', JNum r)]"

subsection \<open>The four callbacks\<close>

text \<open>
  The final \<^verbatim>\<open>return\<close> of \<^verbatim>\<open>loadFromStorage\<close>. It is reached when \<^verbatim>\<open>getItem\<close> throws,
  when it returns \<^verbatim>\<open>null\<close> or the empty string (both falsy), and when \<^verbatim>\<open>JSON.parse\<close>
  throws; the \<^verbatim>\<open>catch\<close> block only logs.
\<close>

definition empty_record :: "RateLimitConfig \<Rightarrow> World \<Rightarrow> LimitData \<times> World" where
  "empty_record config w =
     (case Date_now w of
        (now, w') \<Rightarrow> (\<lparr>requests = [], data_resetTime = now + windowMs config\<rparr>, w'))"

definition loadFromStorage :: "RateLimitConfig \<Rightarrow> World \<Rightarrow> (LimitData \<times> World) option" where
  "loadFromStorage config w =
     (case localStorage_getItem w (storageKey_of config) of
        Throws \<Rightarrow> Some (empty_record config w)
      | Returns None \<Rightarrow> Some (empty_record config w)
      | Returns (Some stored) \<Rightarrow>
          if stored = [] then Some (empty_record config w)
          else
            (case JSON_parse stored of
               SyntaxError \<Rightarrow> Some (empty_record config w)
             | Unsupported \<Rightarrow> None
             | Ok v \<Rightarrow>
                 (case Date_now w of
                    (now, w') \<Rightarrow>
                      (case typed_data v of
                         None \<Rightarrow> None
                       | Some data \<Rightarrow>
                           if now \<ge> data_resetTime data
                           then Some (\<lparr>requests = [], data_resetTime = now + windowMs config\<rparr>, w')
                           else Some (\<lparr>requests = filter (\<lambda>timestamp. now - timestamp < windowMs config)
                                                    (requests data),
                                        data_resetTime = data_resetTime data\<rparr>, w')))))"

definition saveToStorage :: "RateLimitConfig \<Rightarrow> int list \<Rightarrow> int \<Rightarrow> World \<Rightarrow> World" where
  "saveToStorage config rs r w =
     (case localStorage_setItem w (storageKey_of config) (JSON_stringify (data_json rs r)) of
        Throws \<Rightarrow> w
      | Returns w' \<Rightarrow> w')"

definition updateState :: "RateLimitConfig \<Rightarrow> World \<Rightarrow> World option" where
  "updateState config w =
     (case loadFromStorage config w of
        None \<Rightarrow> None
      | Some (data, w1) \<Rightarrow>
          (case Date_now w1 of
             (now, w2) \<Rightarrow>
               let remaining = max 0 (maxRequests config - int (length (requests data)));
                   until = max 0 (data_resetTime data - now)
               in Some (w2\<lparr>state := \<lparr>canProceed = remaining > 0,
                                       remainingRequests = remaining,
                                       resetTime = data_resetTime data,
                                       timeUntilReset = until\<rparr>\<rparr>)))"

definition recordRequest :: "RateLimitConfig \<Rightarrow> World \<Rightarrow> (bool \<times> World) option" where
  "recordRequest config w =
     (case loadFromStorage config w of
        None \<Rightarrow> None
      | Some (data, w1) \<Rightarrow>
          (case Date_now w1 of
             (now, w2) \<Rightarrow>
               if int (length (requests data)) \<ge> maxRequests config
               then (case updateState config w2 of
                       None \<Rightarrow> None
                     | Some w3 \<Rightarrow> Some (False, w3))
               else (case updateState config
                            (saveToStorage config (requests data @ [now]) (data_resetTime data) w2) of
                       None \<Rightarrow> None
                     | Some w3 \<Rightarrow> Some (True, w3))))"

text \<open>
  The state passed to \<^verbatim>\<open>useState\<close> for the first render. The effect then calls
  \<open>updateState\<close> on mount and once a second.
\<close>

definition initialState :: "RateLimitConfig \<Rightarrow> World \<Rightarrow> World" where
  "initialState config w =
     (case Date_now w of
        (now, w') \<Rightarrow> w'\<lparr>state := \<lparr>canProceed = True,
                                  remainingRequests = maxRequests config,
                                  resetTime = now + windowMs config,
                                  timeUntilReset = windowMs config\<rparr>\<rparr>)"

text \<open>The predefined configurations.\<close>

definition feedback :: RateLimitConfig where
  "feedback = \<lparr>key = ''feedback_submission'', maxRequests = 3, windowMs = 5 * 60 * 1000,
                storageKey = Some ''feedbackRateLimit''\<rparr>"

definition changelog :: RateLimitConfig where
  "changelog = \<lparr>key = ''changelog_creation'', maxRequests = 5, windowMs = 60 * 60 * 1000,
                 storageKey = Some ''changelogRateLimit''\<rparr>"

definition api :: RateLimitConfig where
  "api = \<lparr>key = ''api_requests'', maxRequests = 100, windowMs = 60 * 1000,
           storageKey = Some ''apiRateLimit''\<rparr>"

subsection \<open>Auxiliary notions for the proofs\<close>

text \<open>The tokens of the elements of a serialised \<^verbatim>\<open>requests\<close> array.\<close>

fun elem_toks :: "int list \<Rightarrow> token list" where
  "elem_toks [] = []"
| "elem_toks [x] = [TNum x]"
| "elem_toks (x # y # ys) = TNum x # TComma # elem_toks (y # ys)"

text \<open>What may follow a number literal in the texts \<open>JSON_stringify\<close> produces.\<close>

definition closes_number :: "string \<Rightarrow> bool" where
  "closes_number rest = (rest = [] \<or> hd rest = CHR '','' \<or> hd rest = CHR '']'' \<or> hd rest = CHR ''}'')"

subsection \<open>Notions used in the statements\<close>

text \<open>
  The storage is readable and holds, under the hook's key, the text that \<open>saveToStorage\<close>
  writes for the record with timestamps \<open>rs\<close> and reset time \<open>r\<close>.
\<close>

definition persisted :: "RateLimitConfig \<Rightarrow> World \<Rightarrow> int list \<Rightarrow> int \<Rightarrow> bool" where
  "persisted config w rs r =
     (\<not> getItemThrows w \<and> items w (storageKey_of config) = Some (JSON_stringify (data_json rs r)))"

text \<open>Nothing is stored under the hook's key, or what is stored does not parse.\<close>

definition nothing_usable :: "RateLimitConfig \<Rightarrow> World \<Rightarrow> bool" where
  "nothing_usable config w =
     (case items w (storageKey_of config) of
        None \<Rightarrow> True
      | Some stored \<Rightarrow> JSON_parse stored = SyntaxError)"

text \<open>\<open>n\<close> calls of \<open>recordRequest\<close> in succession, with their results.\<close>

fun recordRequests :: "RateLimitConfig \<Rightarrow> nat \<Rightarrow> World \<Rightarrow> (bool list \<times> World) option" where
  "recordRequests config 0 w = Some ([], w)"
| "recordRequests config (Suc n) w =
     (case recordRequest config w of
        None \<Rightarrow> None
      | Some (b, w') \<Rightarrow>
          (case recordRequests config n w' of
             None \<Rightarrow> None
           | Some (bs, w'') \<Rightarrow> Some (b # bs, w'')))"


text \<open>
  The storage works, and the next \<open>n\<close> clock readings lie in the window
  \<open>[t0, t0 + windowMs)\<close>.
\<close>

definition one_window :: "RateLimitConfig \<Rightarrow> int \<Rightarrow> World \<Rightarrow> nat \<Rightarrow> bool" where
  "one_window config t0 w n =
     (\<not> getItemThrows w \<and> \<not> setItemThrows w
      \<and> (\<forall>k. reads w \<le> k \<and> k < reads w + n \<longrightarrow> t0 \<le> clock w k \<and> clock w k < t0 + windowMs config))"

text \<open>
  Within such a window, the stored record is the one of that window (reset time
  \<open>t0 + windowMs\<close>) with timestamps \<open>ts\<close>, all taken in the window.
\<close>

definition in_window :: "RateLimitConfig \<Rightarrow> int \<Rightarrow> World \<Rightarrow> int list \<Rightarrow> nat \<Rightarrow> bool" where
  "in_window config t0 w ts n =
     (one_window config t0 w n
      \<and> items w (storageKey_of config) = Some (JSON_stringify (data_json ts (t0 + windowMs config)))
      \<and> (\<forall>t \<in> set ts. t0 \<le> t))"

text \<open>The state a refresh reports, and the result and state of one \<open>recordRequest\<close>.\<close>

definition reported :: "RateLimitConfig \<Rightarrow> World \<Rightarrow> RateLimitState option" where
  "reported config w = map_option state (updateState config w)"

definition recorded :: "RateLimitConfig \<Rightarrow> World \<Rightarrow> (bool \<times> RateLimitState) option" where
  "recorded config w = map_option (\<lambda>(b, w'). (b, state w')) (recordRequest config w)"

text \<open>
  Concrete environments for the examples: a browser whose storage holds \<open>store\<close>,
  whose \<^verbatim>\<open>setItem\<close> throws when the quota is exceeded, and whose clock starts at \<open>t\<close> and
  advances by one millisecond per reading.
\<close>

definition browser :: "(string \<Rightarrow> string option) \<Rightarrow> bool \<Rightarrow> int \<Rightarrow> World" where
  "browser store quota_exceeded t =
     \<lparr>items = store, getItemThrows = False, setItemThrows = quota_exceeded,
      clock = (\<lambda>k. t + int k), reads = 0,
      state = \<lparr>canProceed = True, remainingRequests = 0, resetTime = 0, timeUntilReset = 0\<rparr>\<rparr>"

definition holding :: "int list \<Rightarrow> int \<Rightarrow> string \<Rightarrow> string option" where
  "holding rs r = Map.empty(''feedbackRateLimit'' \<mapsto> JSON_stringify (data_json rs r))"

text \<open>The feedback configuration with its limit set to zero.\<close>

definition closed_limit :: RateLimitConfig where
  "closed_limit = feedback\<lparr>maxRequests := 0\<rparr>"

section \<open>Properties\<close>

subsection \<open>Serialising and parsing a record\<close>

lemma digit_char_facts:
  assumes "d < 10"
  shows "is_digit (digit_char d)" and "digit_val (digit_char d) = d"
    and "(digit_char d = CHR ''0'') = (d = 0)"
proof -
  from assms have "d \<in> {0,1,2,3,4,5,6,7,8,9}" by auto
  then show "is_digit (digit_char d)" and "digit_val (digit_char d) = d"
    and "(digit_char d = CHR ''0'') = (d = 0)"
    by (auto simp: is_digit_def digit_char_def digit_val_def)
qed

lemma lex_digit_char:
  "lex (digit_char 1 # rest) = lex_num False 1 rest"
  "lex (digit_char 2 # rest) = lex_num False 2 rest"
  "lex (digit_char 3 # rest) = lex_num False 3 rest"
  "lex (digit_char 4 # rest) = lex_num False 4 rest"
  "lex (digit_char 5 # rest) = lex_num False 5 rest"
  "lex (digit_char 6 # rest) = lex_num False 6 rest"
  "lex (digit_char 7 # rest) = lex_num False 7 rest"
  "lex (digit_char 8 # rest) = lex_num False 8 rest"
  "lex (digit_char 9 # rest) = lex_num False 9 rest"
  by (simp_all add: is_digit_def digit_char_def digit_val_def)

lemma lex_neg_digit_char:
  "lex_neg (digit_char 1 # rest) = lex_num True 1 rest"
  "lex_neg (digit_char 2 # rest) = lex_num True 2 rest"
  "lex_neg (digit_char 3 # rest) = lex_num True 3 rest"
  "lex_neg (digit_char 4 # rest) = lex_num True 4 rest"
  "lex_neg (digit_char 5 # rest) = lex_num True 5 rest"
  "lex_neg (digit_char 6 # rest) = lex_num True 6 rest"
  "lex_neg (digit_char 7 # rest) = lex_num True 7 rest"
  "lex_neg (digit_char 8 # rest) = lex_num True 8 rest"
  "lex_neg (digit_char 9 # rest) = lex_num True 9 rest"
  by (simp_all add: is_digit_def digit_char_def digit_val_def)

lemma lex_digit:
  assumes "0 < d" "d < 10"
  shows "lex (digit_char d # rest) = lex_num False d rest"
    and "lex_neg (digit_char d # rest) = lex_num True d rest"
proof -
  from assms have d: "d = 1 \<or> d = 2 \<or> d = 3 \<or> d = 4 \<or> d = 5 \<or> d = 6 \<or> d = 7 \<or> d = 8 \<or> d = 9"
    by arith
  from d show "lex (digit_char d # rest) = lex_num False d rest"
    by (elim disjE) (simp_all only: lex_digit_char)
  from d show "lex_neg (digit_char d # rest) = lex_num True d rest"
    by (elim disjE) (simp_all only: lex_neg_digit_char)
qed

lemma lex_num_digit:
  "d < 10 \<Longrightarrow> lex_num neg a (digit_char d # rest) = lex_num neg (10 * a + d) rest"
  by (simp add: digit_char_facts)

lemma lex_show_nat:
  "0 < n \<Longrightarrow> lex (show_nat n @ rest) = lex_num False n rest
     \<and> lex_neg (show_nat n @ rest) = lex_num True n rest"
proof (induction n arbitrary: rest rule: show_nat.induct)
  case (1 n)
  show ?case
  proof (cases "n < 10")
    case True
    then have sn: "show_nat n = [digit_char n]"
      by (simp add: show_nat.simps [of n])
    from "1.prems" True lex_digit [of n rest] show ?thesis
      by (simp only: sn append.simps)
  next
    case False
    then have pos: "0 < n div 10" by simp
    have d: "n mod 10 < 10" by simp
    have n: "10 * (n div 10) + n mod 10 = n" by simp
    have sn: "show_nat n = show_nat (n div 10) @ [digit_char (n mod 10)]"
      using False by (simp add: show_nat.simps [of n])
    have step: "lex_num neg (n div 10) (digit_char (n mod 10) # rest) = lex_num neg n rest" for neg
      by (simp only: lex_num_digit [OF d] n)
    from "1.IH" [OF False pos, of "digit_char (n mod 10) # rest"]
    show ?thesis
      by (simp only: sn append_assoc append.simps step)
  qed
qed

lemma lex_num_closes:
  "closes_number rest \<Longrightarrow> lex_num neg n rest = cons_tok (num_tok neg n) (lex rest)"
  by (cases rest) (auto simp: closes_number_def cons_tok_def is_digit_def)

lemma lex_zero_closes:
  "closes_number rest \<Longrightarrow> lex_zero rest = cons_tok (TNum 0) (lex rest)"
  by (cases rest) (auto simp: closes_number_def cons_tok_def is_digit_def)

lemma lex_show_int:
  assumes "closes_number rest"
  shows "lex (show_int i @ rest) = cons_tok (TNum i) (lex rest)"
proof -
  consider "i < 0" | "i = 0" | "0 < i" by linarith
  then show ?thesis
  proof cases
    case 1
    then have "0 < nat (- i)" by simp
    from lex_show_nat [OF this, of rest] 1 show ?thesis
      by (simp add: show_int_def lex_num_closes [OF assms] num_tok_def)
  next
    case 2
    then show ?thesis
      by (simp add: show_int_def show_nat.simps [of 0] digit_char_def lex_zero_closes [OF assms])
  next
    case 3
    then have "0 < nat i" by simp
    from lex_show_nat [OF this, of rest] 3 show ?thesis
      by (simp add: show_int_def lex_num_closes [OF assms] num_tok_def)
  qed
qed

lemma lex_elems:
  "lex rest = Ok ts \<Longrightarrow>
   lex (join_comma (map show_int rs) @ CHR '']'' # rest) = Ok (elem_toks rs @ TRBrack # ts)"
proof (induction rs rule: elem_toks.induct)
  case 1
  then show ?case by (simp add: cons_tok_def)
next
  case (2 x)
  then show ?case
    by (simp add: lex_show_int closes_number_def cons_tok_def)
next
  case (3 x y ys)
  have "lex (show_int x @ CHR '','' # join_comma (map show_int (y # ys)) @ CHR '']'' # rest)
        = cons_tok (TNum x) (lex (CHR '','' # join_comma (map show_int (y # ys)) @ CHR '']'' # rest))"
    by (rule lex_show_int) (simp add: closes_number_def)
  with 3 show ?case
    by (simp add: cons_tok_def)
qed

lemma prun_elems:
  "rs \<noteq> [] \<Longrightarrow>
   prun Val (InArr acc # st) (elem_toks rs @ TRBrack # ts)
     = prun (Done (JArr (acc @ map JNum rs))) st ts"
proof (induction rs arbitrary: acc rule: elem_toks.induct)
  case 1
  then show ?case by simp
next
  case (2 x)
  show ?case by (simp add: start_value_def after_value_def)
next
  case (3 x y ys)
  from "3.IH" [of "acc @ [JNum x]"] show ?case
    by (simp add: start_value_def after_value_def)
qed

lemma prun_array:
  "prun ValOrClose (InArr [] # st) (elem_toks rs @ TRBrack # ts)
     = prun (Done (JArr (map JNum rs))) st ts"
proof (cases rs)
  case Nil
  then show ?thesis by simp
next
  case (Cons x xs)
  then have ne: "rs \<noteq> []" by simp
  have "prun ValOrClose (InArr [] # st) (elem_toks rs @ TRBrack # ts)
        = prun Val (InArr [] # st) (elem_toks rs @ TRBrack # ts)"
    using Cons by (cases xs) simp_all
  with prun_elems [OF ne, of "[]" st ts] show ?thesis by simp
qed

lemma stringify_data_json:
  \<open>JSON_stringify (data_json rs r)
     = ''{"requests":['' @ join_comma (map show_int rs) @ CHR '']'' # '',"resetTime":'' @ show_int r @ ''}''\<close>
  by (simp add: data_json_def quote_def escape_char_def comp_def)

lemma lex_data_json:
  "lex (JSON_stringify (data_json rs r))
     = Ok (TLBrace # TStr ''requests'' # TColon # TLBrack # elem_toks rs
           @ [TRBrack, TComma, TStr ''resetTime'', TColon, TNum r, TRBrace])"
proof -
  have tail: \<open>lex ('',"resetTime":'' @ show_int r @ ''}'')
              = Ok [TComma, TStr ''resetTime'', TColon, TNum r, TRBrace]\<close>
    by (simp add: lex_show_int closes_number_def cons_tok_def)
  from lex_elems [OF tail, of rs] show ?thesis
    by (simp add: stringify_data_json cons_tok_def)
qed

lemma JSON_parse_stringify:
  "JSON_parse (JSON_stringify (data_json rs r)) = Ok (data_json rs r)"
proof -
  have "prun Val [] (TLBrace # TStr ''requests'' # TColon # TLBrack # elem_toks rs
           @ [TRBrack, TComma, TStr ''resetTime'', TColon, TNum r, TRBrace])
        = Some (data_json rs r)"
    using prun_array [of "[InObj [] (Some ''requests'')]" rs "[TComma, TStr ''resetTime'', TColon, TNum r, TRBrace]"]
    by (simp add: start_value_def read_key_def after_value_def data_json_def)
  then show ?thesis
    by (simp add: JSON_parse_def lex_data_json)
qed

lemma numbers_JNum: "numbers (map JNum rs) = Some rs"
  by (induction rs) simp_all

lemma typed_data_json:
  "typed_data (data_json rs r) = Some \<lparr>requests = rs, data_resetTime = r\<rparr>"
  by (simp add: typed_data_def data_json_def property_def numbers_JNum)

text \<open>
  Claim C9. The persisted format round-trips: for every record \<open>x\<close> (a list of
  timestamps and a reset time), parsing the text that \<^verbatim>\<open>saveToStorage\<close> writes for \<open>x\<close>
  (\<^verbatim>\<open>JSON.stringify({ requests, resetTime })\<close>) and reading the two fields back, as
  \<^verbatim>\<open>loadFromStorage\<close> does, yields \<open>x\<close> again.
\<close>

theorem C9_serialize_roundtrip:
  "(case JSON_parse (JSON_stringify (data_json (requests x) (data_resetTime x))) of
      Ok v \<Rightarrow> typed_data v
    | SyntaxError \<Rightarrow> None
    | Unsupported \<Rightarrow> None) = Some (x :: LimitData)"
  by (simp add: JSON_parse_stringify typed_data_json)

subsection \<open>The limiter\<close>

lemma stringify_not_empty: "JSON_stringify (data_json rs r) \<noteq> []"
  by (simp add: data_json_def)

lemma load_persisted:
  assumes "persisted config w rs r"
  shows "loadFromStorage config w =
           Some (if clock w (reads w) \<ge> r
                 then \<lparr>requests = [], data_resetTime = clock w (reads w) + windowMs config\<rparr>
                 else \<lparr>requests = filter (\<lambda>t. clock w (reads w) - t < windowMs config) rs,
                       data_resetTime = r\<rparr>,
                 w\<lparr>reads := Suc (reads w)\<rparr>)"
  using assms
  by (simp add: loadFromStorage_def localStorage_getItem_def persisted_def stringify_not_empty
      JSON_parse_stringify typed_data_json Date_now_def)

lemma load_nothing_usable:
  assumes "getItemThrows w \<or> nothing_usable config w"
  shows "loadFromStorage config w =
           Some (\<lparr>requests = [], data_resetTime = clock w (reads w) + windowMs config\<rparr>,
                 w\<lparr>reads := Suc (reads w)\<rparr>)"
  using assms
  by (auto simp: loadFromStorage_def localStorage_getItem_def nothing_usable_def empty_record_def
      Date_now_def split: option.splits)

lemma load_world:
  assumes "loadFromStorage config w = Some (d, w1)"
  shows "w1 = w\<lparr>reads := Suc (reads w)\<rparr>"
  using assms
  by (auto simp: loadFromStorage_def localStorage_getItem_def empty_record_def Date_now_def
      split: option.splits if_splits parsed.splits completion.splits)

lemma load_depends:
  assumes "items w' = items w" "getItemThrows w' = getItemThrows w"
  shows "(loadFromStorage config w' = None) = (loadFromStorage config w = None)"
  using assms
  by (auto simp: loadFromStorage_def localStorage_getItem_def empty_record_def Date_now_def
      split: option.splits if_splits parsed.splits completion.splits)

lemma updateState_eq:
  assumes "loadFromStorage config w = Some (d, w1)"
  shows "updateState config w =
           Some (w\<lparr>reads := Suc (Suc (reads w)),
                   state := \<lparr>canProceed = 0 < max 0 (maxRequests config - int (length (requests d))),
                             remainingRequests = max 0 (maxRequests config - int (length (requests d))),
                             resetTime = data_resetTime d,
                             timeUntilReset = max 0 (data_resetTime d - clock w (Suc (reads w)))\<rparr>\<rparr>)"
proof -
  from load_world [OF assms] have w1: "w1 = w\<lparr>reads := Suc (reads w)\<rparr>" .
  show ?thesis
    by (simp add: updateState_def assms Date_now_def w1 Let_def)
qed

lemma updateState_frame:
  assumes "updateState config w = Some w'"
  shows "items w' = items w" and "getItemThrows w' = getItemThrows w"
    and "setItemThrows w' = setItemThrows w" and "clock w' = clock w"
    and "reads w' = Suc (Suc (reads w))"
proof -
  from assms obtain d w1 where l: "loadFromStorage config w = Some (d, w1)"
    by (auto simp: updateState_def split: option.splits)
  from assms updateState_eq [OF l]
  show "items w' = items w" and "getItemThrows w' = getItemThrows w"
    and "setItemThrows w' = setItemThrows w" and "clock w' = clock w"
    and "reads w' = Suc (Suc (reads w))"
    by auto
qed

lemma updateState_total:
  assumes "loadFromStorage config w \<noteq> None"
  shows "\<exists>w'. updateState config w = Some w'"
proof -
  from assms obtain d w1 where "loadFromStorage config w = Some (d, w1)" by auto
  from updateState_eq [OF this] show ?thesis by blast
qed

lemma recordRequest_reject:
  assumes "loadFromStorage config w = Some (d, w1)"
    and "maxRequests config \<le> int (length (requests d))"
  shows "recordRequest config w =
           (case updateState config (w\<lparr>reads := Suc (Suc (reads w))\<rparr>) of
              None \<Rightarrow> None
            | Some w3 \<Rightarrow> Some (False, w3))"
proof -
  from load_world [OF assms(1)] have w1: "w1 = w\<lparr>reads := Suc (reads w)\<rparr>" .
  show ?thesis
    using assms(2) by (simp add: recordRequest_def assms(1) Date_now_def w1)
qed

lemma recordRequest_accept:
  assumes "loadFromStorage config w = Some (d, w1)"
    and "int (length (requests d)) < maxRequests config"
  shows "recordRequest config w =
           (case updateState config
                   (saveToStorage config (requests d @ [clock w (Suc (reads w))]) (data_resetTime d)
                      (w\<lparr>reads := Suc (Suc (reads w))\<rparr>)) of
              None \<Rightarrow> None
            | Some w3 \<Rightarrow> Some (True, w3))"
proof -
  from load_world [OF assms(1)] have w1: "w1 = w\<lparr>reads := Suc (reads w)\<rparr>" .
  show ?thesis
    using assms(2) by (simp add: recordRequest_def assms(1) Date_now_def w1)
qed

text \<open>
  Claim C10. Whenever \<open>recordRequest\<close> rejects, that is, the record it loads has at
  least \<open>maxRequests\<close> timestamps, the call returns \<open>False\<close> and writes nothing: the
  storage is the same before and after the call.
\<close>

theorem C10_rejected_call_writes_nothing:
  assumes "loadFromStorage config w = Some (d, w1)"
    and "maxRequests config \<le> int (length (requests d))"
  shows "\<exists>w'. recordRequest config w = Some (False, w')
           \<and> items w' (storageKey_of config) = items w (storageKey_of config)
           \<and> items w' = items w"
proof -
  let ?w2 = "w\<lparr>reads := Suc (Suc (reads w))\<rparr>"
  have "loadFromStorage config ?w2 \<noteq> None"
    using load_depends [of ?w2 w config] assms(1) by simp
  from updateState_total [OF this] obtain w' where u: "updateState config ?w2 = Some w'" ..
  from updateState_frame(1) [OF u] have "items w' = items w" by simp
  with recordRequest_reject [OF assms] u show ?thesis by simp
qed

lemma save_throws: "setItemThrows w \<Longrightarrow> saveToStorage config rs r w = w"
  by (simp add: saveToStorage_def localStorage_setItem_def)

lemma save_writes:
  "\<not> setItemThrows w \<Longrightarrow>
   saveToStorage config rs r w
     = w\<lparr>items := (items w)(storageKey_of config \<mapsto> JSON_stringify (data_json rs r))\<rparr>"
  by (simp add: saveToStorage_def localStorage_setItem_def)

lemma save_persisted:
  "\<not> getItemThrows w \<Longrightarrow> \<not> setItemThrows w \<Longrightarrow> persisted config (saveToStorage config rs r w) rs r"
  by (simp add: save_writes persisted_def)

lemma save_load_total:
  assumes "loadFromStorage config w \<noteq> None"
  shows "loadFromStorage config (saveToStorage config rs r w) \<noteq> None"
proof (cases "setItemThrows w")
  case True
  with assms show ?thesis by (simp add: save_throws)
next
  case False
  show ?thesis
  proof (cases "getItemThrows w")
    case True
    then show ?thesis
      by (simp add: save_writes False loadFromStorage_def localStorage_getItem_def)
  next
    case g: False
    from load_persisted [OF save_persisted [OF g False]] show ?thesis by simp
  qed
qed

text \<open>
  Claim C7. With \<open>maxRequests \<le> 0\<close> the limiter always rejects: whatever record is
  stored, \<open>recordRequest\<close> returns \<open>False\<close>, and the state derived by \<open>recordRequest\<close>
  and by \<open>updateState\<close> has \<open>remainingRequests = 0\<close> and \<open>canProceed = False\<close>. (The
  hypothesis on \<open>loadFromStorage\<close> says that the stored text is one the model covers.)
\<close>

theorem C7_nonpositive_limit_always_rejects:
  assumes "maxRequests config \<le> 0" and "loadFromStorage config w \<noteq> None"
  shows "(\<exists>w'. recordRequest config w = Some (False, w')
            \<and> remainingRequests (state w') = 0 \<and> \<not> canProceed (state w'))
       \<and> (\<exists>w'. updateState config w = Some w'
            \<and> remainingRequests (state w') = 0 \<and> \<not> canProceed (state w'))"
proof -
  have closed: "remainingRequests (state w') = 0 \<and> \<not> canProceed (state w')"
    if u: "updateState config v = Some w'" for v w'
  proof -
    from u obtain d v1 where l: "loadFromStorage config v = Some (d, v1)"
      by (auto simp: updateState_def split: option.splits)
    from u updateState_eq [OF l] assms(1) show ?thesis by auto
  qed
  from assms(2) obtain d w1 where l: "loadFromStorage config w = Some (d, w1)" by auto
  from assms(1) have full: "maxRequests config \<le> int (length (requests d))" by simp
  let ?w2 = "w\<lparr>reads := Suc (Suc (reads w))\<rparr>"
  have "loadFromStorage config ?w2 \<noteq> None"
    using load_depends [of ?w2 w config] assms(2) by simp
  from updateState_total [OF this] obtain w' where u: "updateState config ?w2 = Some w'" ..
  from recordRequest_reject [OF l full] u have "recordRequest config w = Some (False, w')"
    by simp
  with closed [OF u] have first: "\<exists>w'. recordRequest config w = Some (False, w')
            \<and> remainingRequests (state w') = 0 \<and> \<not> canProceed (state w')"
    by blast
  from updateState_total [OF assms(2)] obtain w'' where u': "updateState config w = Some w''" ..
  with closed [OF u'] have "\<exists>w'. updateState config w = Some w'
            \<and> remainingRequests (state w') = 0 \<and> \<not> canProceed (state w')"
    by blast
  with first show ?thesis by blast
qed

text \<open>
  Claim C8. For a persisted record and a time \<open>now\<close> before its reset time, the record
  that \<open>loadFromStorage\<close> returns holds exactly the stored timestamps \<open>t\<close> with
  \<open>now - t < windowMs\<close>, in their stored order; none of its timestamps is a window old.
\<close>

theorem C8_load_keeps_exactly_the_fresh_timestamps:
  assumes "persisted config w rs r" and "clock w (reads w) < r"
  shows "\<exists>d w1. loadFromStorage config w = Some (d, w1)
           \<and> requests d = filter (\<lambda>t. clock w (reads w) - t < windowMs config) rs
           \<and> set (requests d) = {t \<in> set rs. clock w (reads w) - t < windowMs config}
           \<and> (\<forall>t \<in> set (requests d). \<not> windowMs config \<le> clock w (reads w) - t)
           \<and> data_resetTime d = r"
  using load_persisted [OF assms(1)] assms(2) by auto

text \<open>
  Claim C4, amended. For every configuration with \<open>maxRequests > 0\<close>: if nothing is
  stored under the key or the stored text does not parse, a refresh succeeds and reports
  \<open>canProceed = True\<close>, \<open>remainingRequests = maxRequests\<close> and
  \<open>resetTime = now + windowMs\<close>, and leaves the storage as it is.
\<close>

theorem C4_nothing_usable_stored:
  assumes "0 < maxRequests config" and "nothing_usable config w"
  shows "\<exists>w'. updateState config w = Some w'
           \<and> canProceed (state w')
           \<and> remainingRequests (state w') = maxRequests config
           \<and> resetTime (state w') = clock w (reads w) + windowMs config
           \<and> items w' = items w"
proof -
  from assms(2) have "getItemThrows w \<or> nothing_usable config w" by simp
  from updateState_eq [OF load_nothing_usable [OF this]] assms(1)
  show ?thesis by simp
qed

text \<open>
  Claim C5. For a persisted record whose reset time has passed (\<open>now \<ge> resetTime\<close>),
  the load returns an empty timestamp list and the reset time \<open>now + windowMs\<close>, the
  refresh reports \<open>remainingRequests = maxRequests\<close> and that reset time, and the next
  \<open>recordRequest\<close>, made in the new window, returns \<open>True\<close>. The limit is positive, as
  the specification requires of a configuration.
\<close>

theorem C5_window_rollover:
  assumes "0 < maxRequests config" and "persisted config w rs r"
    and "r \<le> clock w (reads w)" and "r \<le> clock w (Suc (Suc (reads w)))"
  shows "\<exists>d w1 w' w''. loadFromStorage config w = Some (d, w1)
           \<and> requests d = []
           \<and> data_resetTime d = clock w (reads w) + windowMs config
           \<and> updateState config w = Some w'
           \<and> remainingRequests (state w') = maxRequests config
           \<and> resetTime (state w') = clock w (reads w) + windowMs config
           \<and> recordRequest config w' = Some (True, w'')"
proof -
  let ?d = "\<lparr>requests = [], data_resetTime = clock w (reads w) + windowMs config\<rparr>"
  let ?w1 = "w\<lparr>reads := Suc (reads w)\<rparr>"
  have l: "loadFromStorage config w = Some (?d, ?w1)"
    using load_persisted [OF assms(2)] assms(3) by simp
  from updateState_eq [OF l] obtain w' where u: "updateState config w = Some w'"
    and st: "remainingRequests (state w') = max 0 (maxRequests config)"
            "resetTime (state w') = clock w (reads w) + windowMs config"
    by simp
  from updateState_frame [OF u] assms(2) have p': "persisted config w' rs r"
    and c': "clock w' (reads w') = clock w (Suc (Suc (reads w)))"
    by (simp_all add: persisted_def)
  let ?d' = "\<lparr>requests = [], data_resetTime = clock w' (reads w') + windowMs config\<rparr>"
  have l': "loadFromStorage config w' = Some (?d', w'\<lparr>reads := Suc (reads w')\<rparr>)"
    using load_persisted [OF p'] assms(4) c' by simp
  have cap: "int (length (requests ?d')) < maxRequests config"
    using assms(1) by simp
  let ?saved = "saveToStorage config (requests ?d' @ [clock w' (Suc (reads w'))]) (data_resetTime ?d')
                  (w'\<lparr>reads := Suc (Suc (reads w'))\<rparr>)"
  have "loadFromStorage config (w'\<lparr>reads := Suc (Suc (reads w'))\<rparr>) \<noteq> None"
    using load_depends [of "w'\<lparr>reads := Suc (Suc (reads w'))\<rparr>" w' config] l' by simp
  from save_load_total [OF this] have "loadFromStorage config ?saved \<noteq> None" .
  from updateState_total [OF this] obtain w'' where "updateState config ?saved = Some w''" ..
  with recordRequest_accept [OF l' cap] have "recordRequest config w' = Some (True, w'')"
    by simp
  with l u st assms(1) show ?thesis by auto
qed

lemma in_window_persisted:
  "in_window config t0 w ts n \<Longrightarrow> persisted config w ts (t0 + windowMs config)"
  by (simp add: in_window_def one_window_def persisted_def)

lemma in_window_load:
  assumes "in_window config t0 w ts n" and "0 < n"
  shows "loadFromStorage config w =
           Some (\<lparr>requests = ts, data_resetTime = t0 + windowMs config\<rparr>, w\<lparr>reads := Suc (reads w)\<rparr>)"
proof -
  from assms have now: "t0 \<le> clock w (reads w)" "clock w (reads w) < t0 + windowMs config"
    by (simp_all add: in_window_def one_window_def)
  from assms have "\<forall>t \<in> set ts. t0 \<le> t" by (simp add: in_window_def)
  with now have "\<forall>t \<in> set ts. clock w (reads w) - t < windowMs config" by auto
  then have "filter (\<lambda>t. clock w (reads w) - t < windowMs config) ts = ts" by simp
  with load_persisted [OF in_window_persisted [OF assms(1)]] now show ?thesis by simp
qed

lemma in_window_later:
  assumes "in_window config t0 w ts n" and "reads w \<le> reads w'" and "reads w' + n' \<le> reads w + n"
    and "clock w' = clock w"
    and "items w' = items w" and "getItemThrows w' = getItemThrows w"
    and "setItemThrows w' = setItemThrows w"
  shows "in_window config t0 w' ts n'"
  using assms by (auto simp: in_window_def one_window_def)

lemma in_window_refresh:
  assumes "in_window config t0 w ts n" and "2 \<le> n"
  shows "\<exists>w'. updateState config w = Some w' \<and> in_window config t0 w' ts (n - 2)
           \<and> remainingRequests (state w') = max 0 (maxRequests config - int (length ts))
           \<and> canProceed (state w') = (int (length ts) < maxRequests config)
           \<and> resetTime (state w') = t0 + windowMs config"
proof -
  have cp: "(0 < max 0 (maxRequests config - int (length ts))) = (int (length ts) < maxRequests config)"
    by auto
  from assms(2) have "0 < n" by simp
  from updateState_eq [OF in_window_load [OF assms(1) this]]
  obtain w' where u: "updateState config w = Some w'"
    and st: "remainingRequests (state w') = max 0 (maxRequests config - int (length ts))"
      "canProceed (state w') = (int (length ts) < maxRequests config)"
      "resetTime (state w') = t0 + windowMs config"
    by (simp add: cp)
  from updateState_frame [OF u] assms(2) have "in_window config t0 w' ts (n - 2)"
    by (intro in_window_later [OF assms(1)]) simp_all
  with u st show ?thesis by blast
qed

lemma step_reject:
  assumes "in_window config t0 w ts n" and "4 \<le> n" and "maxRequests config \<le> int (length ts)"
  shows "\<exists>w'. recordRequest config w = Some (False, w') \<and> in_window config t0 w' ts (n - 4)
           \<and> remainingRequests (state w') = 0 \<and> \<not> canProceed (state w')"
proof -
  let ?w2 = "w\<lparr>reads := Suc (Suc (reads w))\<rparr>"
  from assms(2) have n: "0 < n" "2 \<le> n - 2" "n - 2 - 2 = n - 4" by simp_all
  have "in_window config t0 ?w2 ts (n - 2)"
    using assms(2) by (intro in_window_later [OF assms(1)]) simp_all
  from in_window_refresh [OF this n(2)] obtain w' where u: "updateState config ?w2 = Some w'"
    and w': "in_window config t0 w' ts (n - 2 - 2)"
    and st: "remainingRequests (state w') = max 0 (maxRequests config - int (length ts))"
      "canProceed (state w') = (int (length ts) < maxRequests config)"
    by blast
  from recordRequest_reject [OF in_window_load [OF assms(1) n(1)]] assms(3) u
  have "recordRequest config w = Some (False, w')" by simp
  with w' st assms(3) n(3) show ?thesis by auto
qed

lemma save_in_window:
  assumes "one_window config t0 w n" and "4 \<le> n"
    and "\<forall>t \<in> set ts. t0 \<le> t"
  shows "in_window config t0
           (saveToStorage config (ts @ [clock w (Suc (reads w))]) (t0 + windowMs config)
              (w\<lparr>reads := Suc (Suc (reads w))\<rparr>))
           (ts @ [clock w (Suc (reads w))]) (n - 2)"
proof -
  let ?now = "clock w (Suc (reads w))"
  let ?w2 = "w\<lparr>reads := Suc (Suc (reads w))\<rparr>"
  from assms(1) have ok: "\<not> getItemThrows w" "\<not> setItemThrows w"
    by (simp_all add: one_window_def)
  from assms(1,2) have now: "t0 \<le> ?now"
    by (simp add: one_window_def)
  have ws: "saveToStorage config (ts @ [?now]) (t0 + windowMs config) ?w2
              = ?w2\<lparr>items := (items w)(storageKey_of config \<mapsto>
                  JSON_stringify (data_json (ts @ [?now]) (t0 + windowMs config)))\<rparr>"
    using ok by (simp add: save_writes)
  show ?thesis
    using assms now unfolding ws by (auto simp: in_window_def one_window_def)
qed

lemma step_accept:
  assumes "in_window config t0 w ts n" and "4 \<le> n" and "int (length ts) < maxRequests config"
  shows "\<exists>w'. recordRequest config w = Some (True, w')
           \<and> in_window config t0 w' (ts @ [clock w (Suc (reads w))]) (n - 4)
           \<and> remainingRequests (state w') = maxRequests config - int (length ts) - 1"
proof -
  let ?now = "clock w (Suc (reads w))"
  let ?ws = "saveToStorage config (ts @ [?now]) (t0 + windowMs config) (w\<lparr>reads := Suc (Suc (reads w))\<rparr>)"
  from assms(2) have n: "0 < n" "2 \<le> n - 2" "n - 2 - 2 = n - 4" by simp_all
  from assms(1) have "one_window config t0 w n" "\<forall>t \<in> set ts. t0 \<le> t"
    by (simp_all add: in_window_def)
  from save_in_window [OF this(1) assms(2) this(2)]
  have "in_window config t0 ?ws (ts @ [?now]) (n - 2)" .
  from in_window_refresh [OF this n(2)] obtain w' where u: "updateState config ?ws = Some w'"
    and w': "in_window config t0 w' (ts @ [?now]) (n - 2 - 2)"
    and st: "remainingRequests (state w') = max 0 (maxRequests config - int (length (ts @ [?now])))"
    by blast
  from recordRequest_accept [OF in_window_load [OF assms(1) n(1)]] assms(3) u
  have "recordRequest config w = Some (True, w')" by simp
  with w' st assms(3) n(3) show ?thesis by auto
qed

lemma first_accept:
  assumes "one_window config (clock w (reads w)) w n" and "4 \<le> n"
    and "items w (storageKey_of config) = None" and "0 < maxRequests config"
  shows "\<exists>w'. recordRequest config w = Some (True, w')
           \<and> in_window config (clock w (reads w)) w' [clock w (Suc (reads w))] (n - 4)
           \<and> remainingRequests (state w') = maxRequests config - 1"
proof -
  let ?t0 = "clock w (reads w)"
  let ?now = "clock w (Suc (reads w))"
  let ?d = "\<lparr>requests = [], data_resetTime = ?t0 + windowMs config\<rparr>"
  let ?ws = "saveToStorage config ([] @ [?now]) (?t0 + windowMs config) (w\<lparr>reads := Suc (Suc (reads w))\<rparr>)"
  from assms(2) have n: "2 \<le> n - 2" "n - 2 - 2 = n - 4" by simp_all
  have l: "loadFromStorage config w = Some (?d, w\<lparr>reads := Suc (reads w)\<rparr>)"
    by (rule load_nothing_usable) (simp add: nothing_usable_def assms(3))
  have "\<forall>t \<in> set ([] :: int list). ?t0 \<le> t" by simp
  from save_in_window [OF assms(1,2) this]
  have "in_window config ?t0 ?ws ([] @ [?now]) (n - 2)" .
  from in_window_refresh [OF this n(1)] obtain w' where u: "updateState config ?ws = Some w'"
    and w': "in_window config ?t0 w' ([] @ [?now]) (n - 2 - 2)"
    and st: "remainingRequests (state w') = max 0 (maxRequests config - int (length ([] @ [?now])))"
    by blast
  have "int (length (requests ?d)) < maxRequests config" using assms(4) by simp
  from recordRequest_accept [OF l this] u
  have "recordRequest config w = Some (True, w')" by simp
  with w' st assms(4) n(2) show ?thesis by auto
qed

lemma run_accepts:
  assumes "in_window config t0 w ts n" and "4 * m \<le> n"
    and "int (length ts) + int m \<le> maxRequests config"
  shows "\<exists>w' ts'. recordRequests config m w = Some (replicate m True, w')
           \<and> in_window config t0 w' ts' (n - 4 * m) \<and> length ts' = length ts + m
           \<and> (0 < m \<longrightarrow> remainingRequests (state w') = maxRequests config - int (length ts'))"
  using assms
proof (induction m arbitrary: w ts n)
  case 0
  then show ?case by auto
next
  case (Suc m)
  from Suc.prems have cap: "int (length ts) < maxRequests config" and n4: "4 \<le> n"
    and rest: "4 * m \<le> n - 4" and idx: "n - 4 - 4 * m = n - 4 * Suc m"
    by simp_all
  from step_accept [OF Suc.prems(1) n4 cap] obtain w1
    where r: "recordRequest config w = Some (True, w1)"
      and w1: "in_window config t0 w1 (ts @ [clock w (Suc (reads w))]) (n - 4)"
      and st: "remainingRequests (state w1) = maxRequests config - int (length ts) - 1"
    by blast
  from Suc.prems have "int (length (ts @ [clock w (Suc (reads w))])) + int m \<le> maxRequests config"
    by simp
  from Suc.IH [OF w1 rest this] obtain w' ts'
    where rs: "recordRequests config m w1 = Some (replicate m True, w')"
      and w': "in_window config t0 w' ts' (n - 4 - 4 * m)"
      and len: "length ts' = length (ts @ [clock w (Suc (reads w))]) + m"
      and st': "0 < m \<longrightarrow> remainingRequests (state w') = maxRequests config - int (length ts')"
    by blast
  have rem: "remainingRequests (state w') = maxRequests config - int (length ts')"
  proof (cases m)
    case 0
    with rs have "w' = w1" by simp
    with st len 0 show ?thesis by simp
  next
    case (Suc j)
    with st' show ?thesis by simp
  qed
  from r rs have "recordRequests config (Suc m) w = Some (replicate (Suc m) True, w')" by simp
  with w' len rem idx show ?case by auto
qed

lemma run_append:
  assumes "recordRequests config m w = Some (bs, w1)"
    and "recordRequests config n w1 = Some (cs, w2)"
  shows "recordRequests config (m + n) w = Some (bs @ cs, w2)"
  using assms
  by (induction m arbitrary: w bs) (auto split: option.splits)

lemma run_rejects:
  assumes "in_window config t0 w ts n" and "4 * m \<le> n"
    and "maxRequests config \<le> int (length ts)"
  shows "\<exists>w'. recordRequests config m w = Some (replicate m False, w')
           \<and> in_window config t0 w' ts (n - 4 * m)
           \<and> (0 < m \<longrightarrow> remainingRequests (state w') = 0 \<and> \<not> canProceed (state w'))"
  using assms
proof (induction m arbitrary: w n)
  case 0
  then show ?case by auto
next
  case (Suc m)
  from Suc.prems have n4: "4 \<le> n" and rest: "4 * m \<le> n - 4"
    and idx: "n - 4 - 4 * m = n - 4 * Suc m"
    by simp_all
  from step_reject [OF Suc.prems(1) n4 Suc.prems(3)] obtain w1
    where r: "recordRequest config w = Some (False, w1)"
      and w1: "in_window config t0 w1 ts (n - 4)"
      and st: "remainingRequests (state w1) = 0" "\<not> canProceed (state w1)"
    by blast
  from Suc.IH [OF w1 rest Suc.prems(3)] obtain w'
    where rs: "recordRequests config m w1 = Some (replicate m False, w')"
      and w': "in_window config t0 w' ts (n - 4 - 4 * m)"
      and st': "0 < m \<longrightarrow> remainingRequests (state w') = 0 \<and> \<not> canProceed (state w')"
    by blast
  have fin: "remainingRequests (state w') = 0 \<and> \<not> canProceed (state w')"
  proof (cases m)
    case 0
    with rs have "w' = w1" by simp
    with st show ?thesis by simp
  next
    case (Suc j)
    with st' show ?thesis by simp
  qed
  from r rs have "recordRequests config (Suc m) w = Some (replicate (Suc m) False, w')" by simp
  with w' fin idx show ?case by auto
qed

lemma save_frame:
  "getItemThrows (saveToStorage config rs r w) = getItemThrows w"
  "setItemThrows (saveToStorage config rs r w) = setItemThrows w"
  "clock (saveToStorage config rs r w) = clock w"
  "reads (saveToStorage config rs r w) = reads w"
  by (simp_all add: saveToStorage_def localStorage_setItem_def)

lemma nothing_usable_items:
  "items w' = items w \<Longrightarrow> nothing_usable config w' = nothing_usable config w"
  by (simp add: nothing_usable_def)

text \<open>
  When \<^verbatim>\<open>getItem\<close> throws, or \<^verbatim>\<open>setItem\<close> throws and nothing usable is stored, every
  load sees an empty record.
\<close>

lemma unrecorded_step:
  assumes "getItemThrows w \<or> (setItemThrows w \<and> nothing_usable config w)"
    and "0 < maxRequests config"
  shows "\<exists>w'. recordRequest config w = Some (True, w')
           \<and> (getItemThrows w' \<or> (setItemThrows w' \<and> nothing_usable config w'))"
proof -
  let ?d = "\<lparr>requests = [], data_resetTime = clock w (reads w) + windowMs config\<rparr>"
  let ?w2 = "w\<lparr>reads := Suc (Suc (reads w))\<rparr>"
  let ?ws = "saveToStorage config (requests ?d @ [clock w (Suc (reads w))]) (data_resetTime ?d) ?w2"
  from assms(1) have "getItemThrows w \<or> nothing_usable config w" by blast
  from load_nothing_usable [OF this]
  have l: "loadFromStorage config w = Some (?d, w\<lparr>reads := Suc (reads w)\<rparr>)" .
  have cap: "int (length (requests ?d)) < maxRequests config" using assms(2) by simp
  have "loadFromStorage config ?w2 \<noteq> None"
    using load_depends [of ?w2 w config] l by simp
  from updateState_total [OF save_load_total [OF this]]
  obtain w' where u: "updateState config ?ws = Some w'" ..
  note fr = updateState_frame [OF u]
  have "getItemThrows w' \<or> (setItemThrows w' \<and> nothing_usable config w')"
  proof (cases "getItemThrows w")
    case True
    with fr(2) show ?thesis by (simp add: save_frame)
  next
    case False
    with assms(1) have st: "setItemThrows w" and nu: "nothing_usable config w" by simp_all
    from st have "?ws = ?w2" by (simp add: save_throws)
    with fr st nu show ?thesis
      by (simp add: nothing_usable_def)
  qed
  with recordRequest_accept [OF l cap] u show ?thesis by simp
qed

lemma unrecorded_run:
  assumes "getItemThrows w \<or> (setItemThrows w \<and> nothing_usable config w)"
    and "0 < maxRequests config"
  shows "\<exists>w'. recordRequests config k w = Some (replicate k True, w')"
  using assms(1)
proof (induction k arbitrary: w)
  case 0
  show ?case by simp
next
  case (Suc k)
  from unrecorded_step [OF Suc.prems assms(2)] obtain w1
    where r: "recordRequest config w = Some (True, w1)"
      and w1: "getItemThrows w1 \<or> (setItemThrows w1 \<and> nothing_usable config w1)"
    by blast
  from Suc.IH [OF w1] obtain w' where "recordRequests config k w1 = Some (replicate k True, w')" ..
  with r show ?case by simp
qed

lemma closed_step:
  assumes "maxRequests config \<le> 0" and "loadFromStorage config w \<noteq> None"
  shows "\<exists>w'. recordRequest config w = Some (False, w')
           \<and> loadFromStorage config w' \<noteq> None
           \<and> remainingRequests (state w') = 0 \<and> \<not> canProceed (state w')"
proof -
  from assms(2) obtain d w1 where l: "loadFromStorage config w = Some (d, w1)" by auto
  from assms(1) have full: "maxRequests config \<le> int (length (requests d))" by simp
  let ?w2 = "w\<lparr>reads := Suc (Suc (reads w))\<rparr>"
  have "loadFromStorage config ?w2 \<noteq> None"
    using load_depends [of ?w2 w config] assms(2) by simp
  then obtain d2 v where l2: "loadFromStorage config ?w2 = Some (d2, v)" by auto
  from updateState_eq [OF l2] assms(1) obtain w' where u: "updateState config ?w2 = Some w'"
    and st: "remainingRequests (state w') = 0" "\<not> canProceed (state w')"
    by simp
  from updateState_frame [OF u] have "loadFromStorage config w' \<noteq> None"
    using load_depends [of w' w config] assms(2) by simp
  with recordRequest_reject [OF l full] u st show ?thesis by simp
qed

lemma closed_run:
  assumes "maxRequests config \<le> 0" and "loadFromStorage config w \<noteq> None"
  shows "\<exists>w'. recordRequests config k w = Some (replicate k False, w')
           \<and> loadFromStorage config w' \<noteq> None
           \<and> (0 < k \<longrightarrow> remainingRequests (state w') = 0 \<and> \<not> canProceed (state w'))"
  using assms(2)
proof (induction k arbitrary: w)
  case 0
  then show ?case by simp
next
  case (Suc k)
  from closed_step [OF assms(1) Suc.prems] obtain w1
    where r: "recordRequest config w = Some (False, w1)"
      and l1: "loadFromStorage config w1 \<noteq> None"
      and st: "remainingRequests (state w1) = 0" "\<not> canProceed (state w1)"
    by blast
  from Suc.IH [OF l1] obtain w'
    where rs: "recordRequests config k w1 = Some (replicate k False, w')"
      and l': "loadFromStorage config w' \<noteq> None"
      and st': "0 < k \<longrightarrow> remainingRequests (state w') = 0 \<and> \<not> canProceed (state w')"
    by blast
  have fin: "remainingRequests (state w') = 0 \<and> \<not> canProceed (state w')"
  proof (cases k)
    case 0
    with rs have "w' = w1" by simp
    with st show ?thesis by simp
  next
    case (Suc j)
    with st' show ?thesis by simp
  qed
  from r rs have "recordRequests config (Suc k) w = Some (replicate (Suc k) False, w')" by simp
  with l' fin show ?case by auto
qed

lemma closed_refresh:
  assumes "maxRequests config \<le> 0" and "loadFromStorage config w \<noteq> None"
  shows "\<exists>w'. updateState config w = Some w'
           \<and> remainingRequests (state w') = 0 \<and> \<not> canProceed (state w')"
proof -
  from assms(2) obtain d w1 where l: "loadFromStorage config w = Some (d, w1)" by auto
  from updateState_eq [OF l] assms(1) show ?thesis by simp
qed

text \<open>
  Claim C1, amended. With \<open>maxRequests = N > 0\<close>, nothing stored yet and a storage whose
  \<^verbatim>\<open>getItem\<close> and \<^verbatim>\<open>setItem\<close> do not throw, \<open>N + 1\<close> calls of \<open>recordRequest\<close> in
  succession within one window return \<open>True\<close> \<open>N\<close> times and then \<open>False\<close>.
\<close>

theorem C1_limit_reached_after_max_calls:
  assumes "0 < maxRequests config"
    and "one_window config (clock w (reads w)) w (4 * Suc (nat (maxRequests config)))"
    and "items w (storageKey_of config) = None"
  shows "\<exists>w'. recordRequests config (Suc (nat (maxRequests config))) w
                = Some (replicate (nat (maxRequests config)) True @ [False], w')"
proof -
  let ?t0 = "clock w (reads w)"
  let ?n = "4 * Suc (nat (maxRequests config))"
  let ?m = "nat (maxRequests config) - 1"
  from assms(1) have n: "4 \<le> ?n" "4 * ?m \<le> ?n - 4" "4 \<le> ?n - 4 - 4 * ?m"
    by simp_all
  from first_accept [OF assms(2) n(1) assms(3,1)] obtain w1
    where r1: "recordRequest config w = Some (True, w1)"
      and w1: "in_window config ?t0 w1 [clock w (Suc (reads w))] (?n - 4)"
    by blast
  from assms(1) have "int (length [clock w (Suc (reads w))]) + int ?m \<le> maxRequests config"
    by simp
  from run_accepts [OF w1 n(2) this] obtain w2 ts
    where r2: "recordRequests config ?m w1 = Some (replicate ?m True, w2)"
      and w2: "in_window config ?t0 w2 ts (?n - 4 - 4 * ?m)"
      and len: "length ts = length [clock w (Suc (reads w))] + ?m"
    by blast
  from len assms(1) have "maxRequests config \<le> int (length ts)" by simp
  from step_reject [OF w2 n(3) this] obtain w3
    where "recordRequest config w2 = Some (False, w3)"
    by blast
  then have r3: "recordRequests config 1 w2 = Some ([False], w3)" by simp
  from run_append [OF r2 r3]
  have "recordRequests config (?m + 1) w1 = Some (replicate ?m True @ [False], w3)" .
  moreover from assms(1) have "?m + 1 = nat (maxRequests config)" by simp
  ultimately have "recordRequests config (nat (maxRequests config)) w1
                     = Some (replicate ?m True @ [False], w3)"
    by simp
  with r1 have "recordRequests config (Suc (nat (maxRequests config))) w
                  = Some (True # replicate ?m True @ [False], w3)"
    by simp
  moreover from assms(1) have "True # replicate ?m True = replicate (nat (maxRequests config)) True"
    by (cases "nat (maxRequests config)") simp_all
  ultimately show ?thesis by simp
qed

lemma count_after_accepts:
  assumes "one_window config (clock w (reads w)) w (4 * k + 2)"
    and "items w (storageKey_of config) = None" and "int k \<le> maxRequests config"
  shows "\<exists>w' w''. recordRequests config k w = Some (replicate k True, w')
           \<and> (0 < k \<longrightarrow> remainingRequests (state w') = maxRequests config - int k)
           \<and> updateState config w' = Some w''
           \<and> remainingRequests (state w'') = maxRequests config - int k"
proof (cases k)
  case 0
  have "loadFromStorage config w =
          Some (\<lparr>requests = [], data_resetTime = clock w (reads w) + windowMs config\<rparr>,
                w\<lparr>reads := Suc (reads w)\<rparr>)"
    by (rule load_nothing_usable) (simp add: nothing_usable_def assms(2))
  from updateState_eq [OF this] assms(3) 0 show ?thesis by simp
next
  case (Suc j)
  let ?t0 = "clock w (reads w)"
  let ?n = "4 * k + 2"
  from Suc assms(3) have pos: "0 < maxRequests config" by simp
  from Suc have n: "4 \<le> ?n" "4 * j \<le> ?n - 4" "2 \<le> ?n - 4 - 4 * j" by simp_all
  from first_accept [OF assms(1) n(1) assms(2) pos] obtain w1
    where r1: "recordRequest config w = Some (True, w1)"
      and w1: "in_window config ?t0 w1 [clock w (Suc (reads w))] (?n - 4)"
      and st1: "remainingRequests (state w1) = maxRequests config - 1"
    by blast
  from Suc assms(3) have "int (length [clock w (Suc (reads w))]) + int j \<le> maxRequests config"
    by simp
  from run_accepts [OF w1 n(2) this] obtain w2 ts
    where r2: "recordRequests config j w1 = Some (replicate j True, w2)"
      and w2: "in_window config ?t0 w2 ts (?n - 4 - 4 * j)"
      and len: "length ts = length [clock w (Suc (reads w))] + j"
      and st2: "0 < j \<longrightarrow> remainingRequests (state w2) = maxRequests config - int (length ts)"
    by blast
  have rem: "remainingRequests (state w2) = maxRequests config - int k"
  proof (cases j)
    case 0
    with r2 have "w2 = w1" by simp
    with st1 Suc 0 show ?thesis by simp
  next
    case (Suc i)
    with st2 len \<open>k = Suc j\<close> show ?thesis by simp
  qed
  from in_window_refresh [OF w2 n(3)] obtain w3 where u: "updateState config w2 = Some w3"
    and st3: "remainingRequests (state w3) = max 0 (maxRequests config - int (length ts))"
    by blast
  from st3 len Suc assms(3) have "remainingRequests (state w3) = maxRequests config - int k"
    by simp
  moreover from r1 r2 Suc have "recordRequests config k w = Some (replicate k True, w2)"
    by simp
  ultimately show ?thesis using rem u by simp
qed

lemma over_limit:
  assumes "one_window config (clock w (reads w)) w (4 * k + 2)"
    and "items w (storageKey_of config) = None" and "maxRequests config < int k"
  shows "\<exists>w' w''. recordRequests config k w
                  = Some (replicate (nat (maxRequests config)) True
                          @ replicate (k - nat (maxRequests config)) False, w')
           \<and> (0 < k \<longrightarrow> remainingRequests (state w') = 0 \<and> \<not> canProceed (state w'))
           \<and> updateState config w' = Some w''
           \<and> remainingRequests (state w'') = 0 \<and> \<not> canProceed (state w'')"
proof (cases "maxRequests config \<le> 0")
  case True
  have "loadFromStorage config w =
          Some (\<lparr>requests = [], data_resetTime = clock w (reads w) + windowMs config\<rparr>,
                w\<lparr>reads := Suc (reads w)\<rparr>)"
    by (rule load_nothing_usable) (simp add: nothing_usable_def assms(2))
  then have "loadFromStorage config w \<noteq> None" by simp
  from closed_run [OF True this, of k] obtain w'
    where r: "recordRequests config k w = Some (replicate k False, w')"
      and l': "loadFromStorage config w' \<noteq> None"
      and st: "0 < k \<longrightarrow> remainingRequests (state w') = 0 \<and> \<not> canProceed (state w')"
    by blast
  from closed_refresh [OF True l'] obtain w'' where "updateState config w' = Some w''"
    "remainingRequests (state w'') = 0" "\<not> canProceed (state w'')"
    by blast
  with r st True show ?thesis by simp
next
  case False
  then have pos: "0 < maxRequests config" by simp
  let ?t0 = "clock w (reads w)"
  let ?n = "4 * k + 2"
  let ?m = "nat (maxRequests config) - 1"
  let ?j = "k - nat (maxRequests config)"
  from pos assms(3) have k: "k = Suc (?m + ?j)" and j: "0 < ?j" by simp_all
  from pos assms(3) have n: "4 \<le> ?n" "4 * ?m \<le> ?n - 4" "4 * ?j \<le> ?n - 4 - 4 * ?m"
    "2 \<le> ?n - 4 - 4 * ?m - 4 * ?j"
    by simp_all
  from first_accept [OF assms(1) n(1) assms(2) pos] obtain w1
    where r1: "recordRequest config w = Some (True, w1)"
      and w1: "in_window config ?t0 w1 [clock w (Suc (reads w))] (?n - 4)"
    by blast
  from pos have "int (length [clock w (Suc (reads w))]) + int ?m \<le> maxRequests config"
    by simp
  from run_accepts [OF w1 n(2) this] obtain w2 ts
    where r2: "recordRequests config ?m w1 = Some (replicate ?m True, w2)"
      and w2: "in_window config ?t0 w2 ts (?n - 4 - 4 * ?m)"
      and len: "length ts = length [clock w (Suc (reads w))] + ?m"
    by blast
  from len pos have full: "maxRequests config \<le> int (length ts)" by simp
  from run_rejects [OF w2 n(3) full] j obtain w3
    where r3: "recordRequests config ?j w2 = Some (replicate ?j False, w3)"
      and w3: "in_window config ?t0 w3 ts (?n - 4 - 4 * ?m - 4 * ?j)"
      and st3: "remainingRequests (state w3) = 0" "\<not> canProceed (state w3)"
    by blast
  from in_window_refresh [OF w3 n(4)] full obtain w4
    where u: "updateState config w3 = Some w4"
      and st4: "remainingRequests (state w4) = 0" "\<not> canProceed (state w4)"
    by auto
  from run_append [OF r2 r3]
  have "recordRequests config (?m + ?j) w1 = Some (replicate ?m True @ replicate ?j False, w3)" .
  with r1 have "recordRequests config (Suc (?m + ?j)) w
                  = Some (True # replicate ?m True @ replicate ?j False, w3)"
    by simp
  moreover from pos have "True # replicate ?m True = replicate (nat (maxRequests config)) True"
    by (cases "nat (maxRequests config)") simp_all
  ultimately have "recordRequests config k w
                     = Some (replicate (nat (maxRequests config)) True @ replicate ?j False, w3)"
    using k by simp
  with st3 u st4 show ?thesis by blast
qed

lemma clamp_persisted:
  assumes "persisted config v rs r"
  shows "\<exists>v'. updateState config v = Some v'
           \<and> 0 \<le> remainingRequests (state v')
           \<and> canProceed (state v') = (0 < remainingRequests (state v'))
           \<and> (clock v (reads v) < r
                \<and> maxRequests config
                    \<le> int (length (filter (\<lambda>t. clock v (reads v) - t < windowMs config) rs))
              \<longrightarrow> remainingRequests (state v') = 0 \<and> \<not> canProceed (state v'))"
proof -
  from load_persisted [OF assms] obtain d v1 where l: "loadFromStorage config v = Some (d, v1)"
    and d: "clock v (reads v) < r \<longrightarrow>
              requests d = filter (\<lambda>t. clock v (reads v) - t < windowMs config) rs"
    by simp
  from updateState_eq [OF l] d show ?thesis by auto
qed

text \<open>
  Claim C6, amended. Starting with nothing stored and a storage whose \<^verbatim>\<open>getItem\<close> and
  \<^verbatim>\<open>setItem\<close> do not throw, within one window: after \<open>k \<le> maxRequests\<close> calls, all
  accepted, the reported \<open>remainingRequests\<close> is \<open>maxRequests - k\<close>; after
  \<open>k > maxRequests\<close> attempts, of which the first \<open>maxRequests\<close> are accepted and the others
  rejected, it is 0 and \<open>canProceed\<close> is \<open>False\<close>. For every persisted record a refresh
  succeeds, \<open>remainingRequests\<close> is not negative and \<open>canProceed\<close> holds exactly when it
  is positive; when the record's window has not expired and at least \<open>maxRequests\<close> of its
  timestamps are less than a window old, \<open>remainingRequests = 0\<close> and
  \<open>canProceed = False\<close>.
\<close>

theorem C6_remaining_counts_down_and_clamps:
  "(one_window config (clock w (reads w)) w (4 * k + 2) \<and> items w (storageKey_of config) = None
    \<longrightarrow> (int k \<le> maxRequests config
          \<longrightarrow> (\<exists>w' w''. recordRequests config k w = Some (replicate k True, w')
                 \<and> (0 < k \<longrightarrow> remainingRequests (state w') = maxRequests config - int k)
                 \<and> updateState config w' = Some w''
                 \<and> remainingRequests (state w'') = maxRequests config - int k))
        \<and> (maxRequests config < int k
          \<longrightarrow> (\<exists>w' w''. recordRequests config k w
                           = Some (replicate (nat (maxRequests config)) True
                                   @ replicate (k - nat (maxRequests config)) False, w')
                 \<and> (0 < k \<longrightarrow> remainingRequests (state w') = 0 \<and> \<not> canProceed (state w'))
                 \<and> updateState config w' = Some w''
                 \<and> remainingRequests (state w'') = 0 \<and> \<not> canProceed (state w''))))
   \<and> (persisted config v rs r
    \<longrightarrow> (\<exists>v'. updateState config v = Some v'
           \<and> 0 \<le> remainingRequests (state v')
           \<and> canProceed (state v') = (0 < remainingRequests (state v'))
           \<and> (clock v (reads v) < r
                \<and> maxRequests config
                    \<le> int (length (filter (\<lambda>t. clock v (reads v) - t < windowMs config) rs))
              \<longrightarrow> remainingRequests (state v') = 0 \<and> \<not> canProceed (state v'))))"
proof -
  have a: "one_window config (clock w (reads w)) w (4 * k + 2) \<and> items w (storageKey_of config) = None
    \<longrightarrow> (int k \<le> maxRequests config
          \<longrightarrow> (\<exists>w' w''. recordRequests config k w = Some (replicate k True, w')
                 \<and> (0 < k \<longrightarrow> remainingRequests (state w') = maxRequests config - int k)
                 \<and> updateState config w' = Some w''
                 \<and> remainingRequests (state w'') = maxRequests config - int k))"
    using count_after_accepts [of config w k] by blast
  have b: "one_window config (clock w (reads w)) w (4 * k + 2) \<and> items w (storageKey_of config) = None
    \<longrightarrow> (maxRequests config < int k
          \<longrightarrow> (\<exists>w' w''. recordRequests config k w
                           = Some (replicate (nat (maxRequests config)) True
                                   @ replicate (k - nat (maxRequests config)) False, w')
                 \<and> (0 < k \<longrightarrow> remainingRequests (state w') = 0 \<and> \<not> canProceed (state w'))
                 \<and> updateState config w' = Some w''
                 \<and> remainingRequests (state w'') = 0 \<and> \<not> canProceed (state w'')))"
    using over_limit [of config w k] by blast
  have c: "persisted config v rs r
    \<longrightarrow> (\<exists>v'. updateState config v = Some v'
           \<and> 0 \<le> remainingRequests (state v')
           \<and> canProceed (state v') = (0 < remainingRequests (state v'))
           \<and> (clock v (reads v) < r
                \<and> maxRequests config
                    \<le> int (length (filter (\<lambda>t. clock v (reads v) - t < windowMs config) rs))
              \<longrightarrow> remainingRequests (state v') = 0 \<and> \<not> canProceed (state v')))"
    using clamp_persisted [of config v rs r] by blast
  from a b c show ?thesis by blast
qed












lemma load_same_reading:
  assumes "items w' = items w" and "getItemThrows w' = getItemThrows w"
    and "clock w' (reads w') = clock w (reads w)"
  shows "map_option fst (loadFromStorage config w') = map_option fst (loadFromStorage config w)"
  using assms
  by (auto simp: loadFromStorage_def localStorage_getItem_def empty_record_def Date_now_def
      split: option.splits if_splits parsed.splits completion.splits)

text \<open>
  Claim C3, amended. When the loaded record has capacity left and \<^verbatim>\<open>setItem\<close> throws,
  \<open>recordRequest\<close> still returns \<open>True\<close> and raises nothing, the storage is unchanged, and
  the derived state is the one a refresh computes from that unchanged storage: read at the
  same instant, \<open>remainingRequests\<close> is the capacity before the call, not one less.
\<close>

theorem C3_write_failure_is_swallowed:
  assumes "setItemThrows w"
    and "loadFromStorage config w = Some (d, w1)"
    and "int (length (requests d)) < maxRequests config"
  shows "\<exists>w'. recordRequest config w = Some (True, w')
           \<and> items w' = items w
           \<and> updateState config (w\<lparr>reads := Suc (Suc (reads w))\<rparr>) = Some w'
           \<and> (clock w (Suc (Suc (reads w))) = clock w (reads w)
                \<longrightarrow> remainingRequests (state w') = maxRequests config - int (length (requests d))
                    \<and> canProceed (state w'))"
proof -
  let ?w2 = "w\<lparr>reads := Suc (Suc (reads w))\<rparr>"
  have "loadFromStorage config ?w2 \<noteq> None"
    using load_depends [of ?w2 w config] assms(2) by simp
  then obtain d2 v where l2: "loadFromStorage config ?w2 = Some (d2, v)" by auto
  from updateState_eq [OF l2] obtain w' where u: "updateState config ?w2 = Some w'"
    and st: "remainingRequests (state w') = max 0 (maxRequests config - int (length (requests d2)))"
      "canProceed (state w') = (0 < max 0 (maxRequests config - int (length (requests d2))))"
    by simp
  have same: "d2 = d" if "clock w (Suc (Suc (reads w))) = clock w (reads w)"
    using load_same_reading [of ?w2 w config] that l2 assms(2) by simp
  from assms(1) have "saveToStorage config (requests d @ [clock w (Suc (reads w))]) (data_resetTime d) ?w2 = ?w2"
    by (simp add: save_throws)
  with recordRequest_accept [OF assms(2,3)] u
  have "recordRequest config w = Some (True, w')" by simp
  moreover from updateState_frame(1) [OF u] have "items w' = items w" by simp
  ultimately show ?thesis using u st same assms(3) by auto
qed

lemmas example_defs = browser_def holding_def feedback_def closed_limit_def storageKey_of_def
  persisted_def nothing_usable_def one_window_def

text \<open>C1 at the feedback limit: three calls are accepted, the fourth is rejected.\<close>

theorem C1_witness:
  "0 < maxRequests feedback
   \<and> one_window feedback (clock (browser Map.empty False 0) (reads (browser Map.empty False 0)))
        (browser Map.empty False 0) (4 * Suc (nat (maxRequests feedback)))
   \<and> items (browser Map.empty False 0) (storageKey_of feedback) = None
   \<and> (\<exists>w'. recordRequests feedback 4 (browser Map.empty False 0)
               = Some ([True, True, True, False], w'))"
proof -
  have h1: "0 < maxRequests feedback" by (simp add: feedback_def)
  have h2: "one_window feedback (clock (browser Map.empty False 0) (reads (browser Map.empty False 0)))
              (browser Map.empty False 0) (4 * Suc (nat (maxRequests feedback)))"
    by (simp add: example_defs)
  have h3: "items (browser Map.empty False 0) (storageKey_of feedback) = None"
    by (simp add: example_defs)
  have n: "Suc (nat (maxRequests feedback)) = 4" "replicate (nat (maxRequests feedback)) True = [True, True, True]"
    by (simp_all add: feedback_def numeral_3_eq_3)
  from C1_limit_reached_after_max_calls [OF h1 h2 h3] h1 h2 h3 show ?thesis
    by (simp only: n) simp
qed

text \<open>
  C1 as stated fails where the storage does not work: with no history and the feedback
  limit of three, a fourth call in the same window still returns \<open>True\<close>, both when
  \<^verbatim>\<open>setItem\<close> throws and when \<^verbatim>\<open>getItem\<close> throws, since nothing recorded is ever read
  back.
\<close>

theorem C1_counterexample:
  "map_option fst (recordRequests feedback 4 (browser Map.empty True 0))
     = Some [True, True, True, True]
   \<and> map_option fst (recordRequests feedback 4 ((browser Map.empty False 0)\<lparr>getItemThrows := True\<rparr>))
     = Some [True, True, True, True]"
proof -
  let ?s = "browser Map.empty True 0"
  let ?g = "(browser Map.empty False 0)\<lparr>getItemThrows := True\<rparr>"
  have pos: "0 < maxRequests feedback" by (simp add: feedback_def)
  have r: "replicate 4 True = [True, True, True, True]"
    by (simp add: numeral_eq_Suc)
  have "getItemThrows ?s \<or> (setItemThrows ?s \<and> nothing_usable feedback ?s)"
    by (simp add: nothing_usable_def browser_def)
  from unrecorded_run [OF this pos, of 4]
  have s: "map_option fst (recordRequests feedback 4 ?s) = Some [True, True, True, True]"
    by (auto simp only: r option.map_sel option.simps fst_conv)
  have "getItemThrows ?g \<or> (setItemThrows ?g \<and> nothing_usable feedback ?g)"
    by simp
  from unrecorded_run [OF this pos, of 4]
  have g: "map_option fst (recordRequests feedback 4 ?g) = Some [True, True, True, True]"
    by (auto simp only: r option.map_sel option.simps fst_conv)
  from s g show ?thesis by (intro conjI)
qed

text \<open>C10 at the feedback limit with three requests recorded in the current window.\<close>

theorem C10_witness:
  "loadFromStorage feedback (browser (holding [0, 1, 2] 300000) False 3)
     = Some (\<lparr>requests = [0, 1, 2], data_resetTime = 300000\<rparr>,
             (browser (holding [0, 1, 2] 300000) False 3)\<lparr>reads := 1\<rparr>)
   \<and> (\<exists>w'. recordRequest feedback (browser (holding [0, 1, 2] 300000) False 3) = Some (False, w')
          \<and> items w' (storageKey_of feedback) = Some (JSON_stringify (data_json [0, 1, 2] 300000)))"
proof -
  let ?w = "browser (holding [0, 1, 2] 300000) False 3"
  have p: "persisted feedback ?w [0, 1, 2] 300000" by (simp add: example_defs)
  have l: "loadFromStorage feedback ?w
             = Some (\<lparr>requests = [0, 1, 2], data_resetTime = 300000\<rparr>, ?w\<lparr>reads := 1\<rparr>)"
    using load_persisted [OF p] by (simp add: browser_def feedback_def)
  have full: "maxRequests feedback \<le> int (length (requests \<lparr>requests = [0, 1, 2], data_resetTime = 300000\<rparr>))"
    by (simp add: feedback_def)
  from C10_rejected_call_writes_nothing [OF l full] l show ?thesis
    by (auto simp: example_defs)
qed

lemma load_browser_empty:
  "loadFromStorage config (browser Map.empty q t)
     = Some (\<lparr>requests = [], data_resetTime = t + windowMs config\<rparr>,
             (browser Map.empty q t)\<lparr>reads := 1\<rparr>)"
proof -
  have "getItemThrows (browser Map.empty q t) \<or> nothing_usable config (browser Map.empty q t)"
    by (simp add: nothing_usable_def browser_def)
  from load_nothing_usable [OF this] show ?thesis by (simp add: browser_def)
qed



text \<open>
  C3 as stated fails: with the feedback limit of three, no history and a storage whose
  \<^verbatim>\<open>setItem\<close> throws, \<open>recordRequest\<close> returns \<open>True\<close> and leaves
  \<open>remainingRequests\<close> at 3.
\<close>

theorem C3_counterexample:
  "recorded feedback (browser Map.empty True 0)
     = Some (True, \<lparr>canProceed = True, remainingRequests = 3,
                    resetTime = 300002, timeUntilReset = 299999\<rparr>)"
proof -
  let ?w = "browser Map.empty True 0"
  let ?w2 = "?w\<lparr>reads := Suc (Suc (reads ?w))\<rparr>"
  have cap: "int (length (requests \<lparr>requests = [], data_resetTime = 0 + windowMs feedback\<rparr>))
               < maxRequests feedback"
    by (simp add: feedback_def)
  have sv: "saveToStorage feedback rs r ?w2 = ?w2" for rs r
    by (rule save_throws) (simp add: browser_def)
  have "getItemThrows ?w2 \<or> nothing_usable feedback ?w2"
    by (simp add: nothing_usable_def browser_def)
  from updateState_eq [OF load_nothing_usable [OF this]]
  have "map_option state (updateState feedback ?w2)
          = Some \<lparr>canProceed = True, remainingRequests = 3,
                  resetTime = 300002, timeUntilReset = 299999\<rparr>"
    by (simp add: browser_def feedback_def)
  with recordRequest_accept [OF load_browser_empty [of feedback True 0] cap]
  show ?thesis
    by (auto simp: recorded_def sv split: option.splits)
qed

text \<open>C3, amended, in that environment.\<close>

theorem C3_witness:
  "setItemThrows (browser Map.empty True 0)
   \<and> int (length ([] :: int list)) < maxRequests feedback
   \<and> (\<exists>w'. recordRequest feedback (browser Map.empty True 0) = Some (True, w')
          \<and> items w' = Map.empty)"
proof -
  let ?w = "browser Map.empty True 0"
  have h1: "setItemThrows ?w" by (simp add: browser_def)
  have h3: "int (length (requests \<lparr>requests = [], data_resetTime = 0 + windowMs feedback\<rparr>))
               < maxRequests feedback"
    by (simp add: feedback_def)
  from C3_write_failure_is_swallowed [OF h1 load_browser_empty [of feedback True 0] h3] h1 h3
  show ?thesis by (auto simp: browser_def)
qed

text \<open>
  C4 as stated fails for a configuration whose limit is zero: with nothing stored, the
  refresh reports \<open>canProceed = False\<close>.
\<close>

theorem C4_counterexample:
  "nothing_usable closed_limit (browser Map.empty False 0)
   \<and> reported closed_limit (browser Map.empty False 0)
       = Some \<lparr>canProceed = False, remainingRequests = 0,
               resetTime = 300000, timeUntilReset = 299999\<rparr>"
proof -
  have "nothing_usable closed_limit (browser Map.empty False 0)"
    by (simp add: nothing_usable_def browser_def)
  moreover from updateState_eq [OF load_browser_empty [of closed_limit False 0]]
  have "reported closed_limit (browser Map.empty False 0)
          = Some \<lparr>canProceed = False, remainingRequests = 0,
                  resetTime = 300000, timeUntilReset = 299999\<rparr>"
    by (simp add: reported_def browser_def closed_limit_def feedback_def)
  ultimately show ?thesis by simp
qed

lemma not_json: "JSON_parse ''not json'' = SyntaxError"
  by (simp add: JSON_parse_def)

text \<open>C4, amended, for a stored text that is not JSON.\<close>

theorem C4_witness:
  "0 < maxRequests feedback
   \<and> nothing_usable feedback (browser (Map.empty(''feedbackRateLimit'' \<mapsto> ''not json'')) False 7)
   \<and> (\<exists>w'. updateState feedback (browser (Map.empty(''feedbackRateLimit'' \<mapsto> ''not json'')) False 7)
               = Some w'
          \<and> canProceed (state w') \<and> remainingRequests (state w') = 3
          \<and> resetTime (state w') = 300007)"
proof -
  let ?w = "browser (Map.empty(''feedbackRateLimit'' \<mapsto> ''not json'')) False 7"
  have h1: "0 < maxRequests feedback" by (simp add: feedback_def)
  have h2: "nothing_usable feedback ?w"
    by (simp add: nothing_usable_def browser_def feedback_def storageKey_of_def not_json)
  from C4_nothing_usable_stored [OF h1 h2] h1 h2 show ?thesis
    by (auto simp: browser_def feedback_def)
qed

text \<open>C5 for a record whose window ended one millisecond ago.\<close>

theorem C5_witness:
  "persisted feedback (browser (holding [0, 1, 2] 300000) False 300001) [0, 1, 2] 300000
   \<and> (\<exists>w' w''. updateState feedback (browser (holding [0, 1, 2] 300000) False 300001) = Some w'
          \<and> remainingRequests (state w') = 3
          \<and> resetTime (state w') = 600001
          \<and> recordRequest feedback w' = Some (True, w''))"
proof -
  let ?w = "browser (holding [0, 1, 2] 300000) False 300001"
  have h1: "0 < maxRequests feedback" by (simp add: feedback_def)
  have h2: "persisted feedback ?w [0, 1, 2] 300000" by (simp add: example_defs)
  have h3: "300000 \<le> clock ?w (reads ?w)" by (simp add: browser_def)
  have h4: "300000 \<le> clock ?w (Suc (Suc (reads ?w)))" by (simp add: browser_def)
  from C5_window_rollover [OF h1 h2 h3 h4] h2 show ?thesis
    by (auto simp: browser_def feedback_def)
qed

text \<open>
  C6 as stated fails for a persisted record whose window has expired: it holds four
  timestamps, more than the limit of three, and the refresh reports
  \<open>remainingRequests = 3\<close> and \<open>canProceed = True\<close>.
\<close>

theorem C6_counterexample:
  "persisted feedback (browser (holding [0, 1, 2, 3] 300000) False 300001) [0, 1, 2, 3] 300000
   \<and> maxRequests feedback < int (length [0, 1, 2, 3 :: int])
   \<and> reported feedback (browser (holding [0, 1, 2, 3] 300000) False 300001)
       = Some \<lparr>canProceed = True, remainingRequests = 3,
               resetTime = 600001, timeUntilReset = 299999\<rparr>"
proof -
  let ?w = "browser (holding [0, 1, 2, 3] 300000) False 300001"
  have p: "persisted feedback ?w [0, 1, 2, 3] 300000" by (simp add: example_defs)
  have "loadFromStorage feedback ?w
          = Some (\<lparr>requests = [], data_resetTime = 600001\<rparr>, ?w\<lparr>reads := 1\<rparr>)"
    using load_persisted [OF p] by (simp add: browser_def feedback_def)
  from updateState_eq [OF this]
  have "reported feedback ?w
          = Some \<lparr>canProceed = True, remainingRequests = 3,
                  resetTime = 600001, timeUntilReset = 299999\<rparr>"
    by (simp add: reported_def browser_def feedback_def)
  with p show ?thesis by (simp add: feedback_def)
qed

text \<open>
  C6, amended: two accepted calls leave one request; five attempts give three accepted and
  two rejected calls and leave none; a live record with three fresh timestamps leaves none.
\<close>

theorem C6_witness:
  "(\<exists>w' w''. recordRequests feedback 2 (browser Map.empty False 0) = Some ([True, True], w')
       \<and> remainingRequests (state w') = 1
       \<and> updateState feedback w' = Some w'' \<and> remainingRequests (state w'') = 1)
   \<and> (\<exists>w' w''. recordRequests feedback 5 (browser Map.empty False 0)
                  = Some ([True, True, True, False, False], w')
       \<and> remainingRequests (state w') = 0 \<and> \<not> canProceed (state w')
       \<and> updateState feedback w' = Some w''
       \<and> remainingRequests (state w'') = 0 \<and> \<not> canProceed (state w''))
   \<and> (\<exists>v'. updateState feedback (browser (holding [0, 1, 2] 300000) False 5) = Some v'
       \<and> remainingRequests (state v') = 0 \<and> \<not> canProceed (state v'))"
proof -
  let ?w = "browser Map.empty False 0"
  let ?v = "browser (holding [0, 1, 2] 300000) False 5"
  have a: "one_window feedback (clock ?w (reads ?w)) ?w (4 * 2 + 2)
             \<and> items ?w (storageKey_of feedback) = None"
    and a2: "int 2 \<le> maxRequests feedback"
    by (simp_all add: example_defs)
  have a': "one_window feedback (clock ?w (reads ?w)) ?w (4 * 5 + 2)
             \<and> items ?w (storageKey_of feedback) = None"
    and a2': "maxRequests feedback < int 5"
    by (simp_all add: example_defs)
  have b: "persisted feedback ?v [0, 1, 2] 300000" by (simp add: example_defs)
  have c: "clock ?v (reads ?v) < 300000
             \<and> maxRequests feedback
                 \<le> int (length (filter (\<lambda>t. clock ?v (reads ?v) - t < windowMs feedback) [0, 1, 2]))"
    by (simp add: browser_def feedback_def)
  have r: "replicate 2 True = [True, True]"
    "replicate (nat (maxRequests feedback)) True @ replicate (5 - nat (maxRequests feedback)) False
       = [True, True, True, False, False]"
    by (simp_all add: feedback_def numeral_2_eq_2 numeral_3_eq_3)
  from C6_remaining_counts_down_and_clamps [of feedback ?w 2 ?v "[0, 1, 2]" 300000] a a2 b c
  have one: "(\<exists>w' w''. recordRequests feedback 2 ?w = Some (replicate 2 True, w')
           \<and> remainingRequests (state w') = maxRequests feedback - int 2
           \<and> updateState feedback w' = Some w''
           \<and> remainingRequests (state w'') = maxRequests feedback - int 2)
        \<and> (\<exists>v'. updateState feedback ?v = Some v'
           \<and> remainingRequests (state v') = 0 \<and> \<not> canProceed (state v'))"
    by auto
  from C6_remaining_counts_down_and_clamps [of feedback ?w 5 ?v "[0, 1, 2]" 300000] a' a2'
  have two: "\<exists>w' w''. recordRequests feedback 5 ?w
                 = Some (replicate (nat (maxRequests feedback)) True
                         @ replicate (5 - nat (maxRequests feedback)) False, w')
           \<and> remainingRequests (state w') = 0 \<and> \<not> canProceed (state w')
           \<and> updateState feedback w' = Some w''
           \<and> remainingRequests (state w'') = 0 \<and> \<not> canProceed (state w'')"
    by auto
  from one two show ?thesis by (simp only: r) (simp add: feedback_def)
qed

text \<open>C7 for the zero limit and an empty stored record.\<close>

theorem C7_witness:
  "maxRequests closed_limit \<le> 0
   \<and> (\<exists>w'. recordRequest closed_limit (browser (holding [] 300000) False 5) = Some (False, w')
          \<and> remainingRequests (state w') = 0 \<and> \<not> canProceed (state w'))
   \<and> (\<exists>w'. updateState closed_limit (browser (holding [] 300000) False 5) = Some w'
          \<and> remainingRequests (state w') = 0 \<and> \<not> canProceed (state w'))"
proof -
  let ?w = "browser (holding [] 300000) False 5"
  have h1: "maxRequests closed_limit \<le> 0" by (simp add: closed_limit_def)
  have p: "persisted closed_limit ?w [] 300000" by (simp add: example_defs)
  from load_persisted [OF p] have h2: "loadFromStorage closed_limit ?w \<noteq> None" by simp
  from C7_nonpositive_limit_always_rejects [OF h1 h2] h1 show ?thesis by simp
qed

text \<open>C8: of three stored timestamps, the one that is a full window old is dropped.\<close>

theorem C8_witness:
  "persisted feedback (browser (holding [0, 100000, 300000] 350000) False 300000)
     [0, 100000, 300000] 350000
   \<and> (\<exists>d w1. loadFromStorage feedback (browser (holding [0, 100000, 300000] 350000) False 300000)
                 = Some (d, w1)
          \<and> requests d = [100000, 300000] \<and> data_resetTime d = 350000)"
proof -
  let ?w = "browser (holding [0, 100000, 300000] 350000) False 300000"
  have h1: "persisted feedback ?w [0, 100000, 300000] 350000" by (simp add: example_defs)
  have h2: "clock ?w (reads ?w) < 350000" by (simp add: browser_def)
  from C8_load_keeps_exactly_the_fresh_timestamps [OF h1 h2] h1 show ?thesis
    by (auto simp: browser_def feedback_def)
qed

end
